theory Spec2Isabelle
  imports Main "HOL-Library.Word" "HOL-Library.Sublist"
begin

unbundle bit_operations_syntax

section \<open>Paths: the functions of Go's path/filepath and strings that the code calls\<close>

text \<open>
  The repository manipulates paths as strings through \<^verbatim>\<open>filepath.Clean\<close>,
  \<^verbatim>\<open>filepath.Dir\<close>, \<^verbatim>\<open>filepath.Base\<close>, \<^verbatim>\<open>filepath.Join\<close>,
  \<^verbatim>\<open>filepath.Rel\<close>, \<^verbatim>\<open>strings.Split\<close> and \<^verbatim>\<open>strings.HasPrefix\<close>.
  These belong to Go's standard library; they are modelled here for a Unix target
  (separator \<^verbatim>\<open>/\<close>, no volume names), following the library's documented
  behaviour. A path is a \<open>string\<close>, as in the code.
\<close>

type_synonym path = string

definition Separator :: char where
  "Separator = CHR ''/''"

text \<open>\<^verbatim>\<open>strings.Split(s, "/")\<close>: the pieces between separators; the empty string
  gives one empty piece.\<close>

fun splitSep :: "string \<Rightarrow> string list" where
  "splitSep [] = [] # []"
| "splitSep (c # cs) =
     (if c = Separator then [] # splitSep cs
      else (case splitSep cs of [] \<Rightarrow> [c] # [] | x # xs \<Rightarrow> (c # x) # xs))"

text \<open>\<^verbatim>\<open>strings.Join(elems, "/")\<close>.\<close>

fun joinSep :: "string list \<Rightarrow> string" where
  "joinSep [] = []"
| "joinSep [x] = x"
| "joinSep (x # y # ys) = x @ Separator # joinSep (y # ys)"

text \<open>\<^verbatim>\<open>strings.HasPrefix(s, prefix)\<close>.\<close>

definition HasPrefix :: "string \<Rightarrow> string \<Rightarrow> bool" where
  "HasPrefix s p = (take (length p) s = p)"

text \<open>
  \<^verbatim>\<open>filepath.Clean\<close>: multiple separators become one, every \<^verbatim>\<open>.\<close> element
  is dropped, every inner \<^verbatim>\<open>..\<close> element is dropped together with the
  non-\<^verbatim>\<open>..\<close> element before it, a \<^verbatim>\<open>..\<close> that begins a rooted path is
  dropped, and an empty result is \<^verbatim>\<open>.\<close>. \<open>cleanElems\<close> processes the
  elements from left to right; \<open>acc\<close> holds the elements kept so far, last one first.
\<close>

fun cleanElems :: "bool \<Rightarrow> string list \<Rightarrow> string list \<Rightarrow> string list" where
  "cleanElems rooted acc [] = rev acc"
| "cleanElems rooted acc (c # cs) =
     (if c = [] \<or> c = ''.'' then cleanElems rooted acc cs
      else if c = ''..'' then
        (case acc of
           [] \<Rightarrow> if rooted then cleanElems rooted [] cs
                 else cleanElems rooted [''..''] cs
         | a # as \<Rightarrow> if a = ''..'' then cleanElems rooted (''..'' # a # as) cs
                     else cleanElems rooted as cs)
      else cleanElems rooted (c # acc) cs)"

definition isRooted :: "path \<Rightarrow> bool" where
  "isRooted p = (case p of [] \<Rightarrow> False | c # _ \<Rightarrow> c = Separator)"

definition Clean :: "path \<Rightarrow> path" where
  "Clean p =
     (let rooted = isRooted p;
          out = (if rooted then [Separator] else []) @ joinSep (cleanElems rooted [] (splitSep p))
      in if out = [] then ''.'' else out)"

text \<open>\<^verbatim>\<open>filepath.Dir\<close>: everything up to and including the last separator,
  cleaned.\<close>

definition Dir :: "path \<Rightarrow> path" where
  "Dir p = Clean (rev (dropWhile (\<lambda>c. c \<noteq> Separator) (rev p)))"


text \<open>\<^verbatim>\<open>filepath.Join\<close>: leading empty elements are ignored, the rest is joined
  with separators and cleaned; no non-empty element gives the empty string.\<close>

definition Join :: "path list \<Rightarrow> path" where
  "Join elems =
     (case dropWhile (\<lambda>e. e = []) elems of
        [] \<Rightarrow> []
      | e # es \<Rightarrow> Clean (joinSep (e # es)))"

text \<open>
  \<^verbatim>\<open>filepath.Rel\<close>. Its loop moves over \<open>base\<close> and \<open>targ\<close> element by
  element while the elements agree. \<open>relLoop\<close> takes what is left of both strings
  (\<^verbatim>\<open>base[b0:]\<close> and \<^verbatim>\<open>targ[t0:]\<close>) and returns the element of \<open>base\<close>
  at which the loop stopped (\<^verbatim>\<open>base[b0:bi]\<close>) with what is left of both.
\<close>

function relLoop :: "string \<Rightarrow> string \<Rightarrow> string \<times> string \<times> string" where
  "relLoop b t =
     (if b = [] \<or> t = [] then ([], b, t)
      else let bw = takeWhile (\<lambda>c. c \<noteq> Separator) b;
               tw = takeWhile (\<lambda>c. c \<noteq> Separator) t
           in if tw \<noteq> bw then (bw, b, t)
              else relLoop (drop (Suc (length bw)) b) (drop (Suc (length tw)) t))"
  by pat_completeness auto
termination
  by (relation "measure (\<lambda>(b, t). length b)") auto

declare relLoop.simps [simp del]

type_synonym errmsg = string

definition Rel :: "path \<Rightarrow> path \<Rightarrow> errmsg + path" where
  "Rel basepath targpath =
     (let base = Clean basepath; targ = Clean targpath
      in if targ = base then Inr ''.''
         else
           let base = (if base = ''.'' then [] else base)
           in if isRooted base \<noteq> isRooted targ
              then Inl (''Rel: can't make '' @ targpath @ '' relative to '' @ basepath)
              else
                (case relLoop base targ of
                   (bw, brest, trest) \<Rightarrow>
                     if bw = ''..''
                     then Inl (''Rel: can't make '' @ targpath @ '' relative to '' @ basepath)
                     else if brest \<noteq> []
                     then
                       let seps = length (filter (\<lambda>c. c = Separator) brest)
                       in Inr (''..'' @ concat (replicate seps (Separator # ''..''))
                               @ (if trest \<noteq> [] then Separator # trest else []))
                     else Inr trest))"

section \<open>Data model\<close>

text \<open>\<^verbatim>\<open>os.FileMode\<close> is an unsigned 32-bit integer; \<^verbatim>\<open>os.ModeDir\<close> is its
  top bit. Sizes are \<^verbatim>\<open>int64\<close>. A \<^verbatim>\<open>time.Time\<close> is kept as a number of
  seconds, which is all the protocol carries.\<close>

type_synonym FileMode = "32 word"

definition ModeDir :: FileMode where
  "ModeDir = push_bit 31 1"

text \<open>The octal literal \<^verbatim>\<open>0777\<close>.\<close>

definition mode0777 :: FileMode where
  "mode0777 = 7 * 64 + 7 * 8 + 7"

type_synonym gotime = int

text \<open>
  Modelled from the spec: the message headers. Their type declarations are in the
  protocol file of the repository, which is not among the sources; the fields are
  those of section 3 of the specification, under the names the code reads them by
  (\<^verbatim>\<open>Mtime\<close>, \<^verbatim>\<open>Atime\<close>; \<^verbatim>\<open>Mode\<close>, \<^verbatim>\<open>Size\<close>,
  \<^verbatim>\<open>Name\<close>).
\<close>

record timeMsgHeader =
  Mtime :: gotime
  Atime :: gotime

record fileMsgHeader =
  fileMode :: FileMode
  fileSize :: "64 word"
  fileName :: string

record startDirectoryMsgHeader =
  dirMode :: FileMode
  dirName :: string

text \<open>What \<^verbatim>\<open>ReadHeaderOrReply\<close> hands to the type switch of its callers.\<close>

datatype header =
    TimeMsg timeMsgHeader
  | StartDirectoryMsg startDirectoryMsgHeader
  | EndDirectoryMsg
  | FileMsg fileMsgHeader
  | OkMsg

text \<open>The zero value of \<^verbatim>\<open>timeMsgHeader\<close> (\<^verbatim>\<open>var timeHeader timeMsgHeader\<close>).\<close>

definition zeroTimeHeader :: timeMsgHeader where
  "zeroTimeHeader = \<lparr>Mtime = 0, Atime = 0\<rparr>"

text \<open>
  Modelled from the spec: the transfer-level descriptor \<^verbatim>\<open>FileInfo\<close> and its
  constructor \<^verbatim>\<open>NewFileInfo\<close>, which are declared in a file that is not among
  the sources. The descriptor is the record of section 3 of the specification (name,
  size, mode, modification time, access time), built from the five values the callers
  of \<^verbatim>\<open>NewFileInfo\<close> pass.
\<close>

record FileInfo =
  infoName :: string
  infoSize :: "64 word"
  infoMode :: FileMode
  infoModTime :: gotime
  infoAccessTime :: gotime

definition NewFileInfo :: "string \<Rightarrow> 64 word \<Rightarrow> FileMode \<Rightarrow> gotime \<Rightarrow> gotime \<Rightarrow> FileInfo" where
  "NewFileInfo name sz mode mtime atime =
     \<lparr>infoName = name, infoSize = sz, infoMode = mode,
      infoModTime = mtime, infoAccessTime = atime\<rparr>"

text \<open>What \<^verbatim>\<open>os.Lstat\<close> and the directory listing give for a local entry
  (\<^verbatim>\<open>os.FileInfo\<close>); whether it is a directory is given by the kind of the
  entry below.\<close>

record osFileInfo =
  osName :: string
  osSize :: "64 word"
  osMode :: FileMode
  osModTime :: gotime
  osAccessTime :: gotime

text \<open>\<^verbatim>\<open>AcceptFunc\<close>: the caller's filter, returning \<^verbatim>\<open>(bool, error)\<close>.\<close>

type_synonym AcceptFunc = "path \<Rightarrow> FileInfo \<Rightarrow> bool \<times> errmsg option"

definition acceptAny :: AcceptFunc where
  "acceptAny parentDir info = (True, None)"

section \<open>Effects: the calls the code makes on the operating system and on the session\<close>

text \<open>
  Every call that leaves the program is recorded, in order, in a trace. The arguments
  are the ones the code passes. The calls on the protocol of a session
  (\<^verbatim>\<open>ReadHeaderOrReply\<close>, \<^verbatim>\<open>CopyFileBodyTo\<close>, \<^verbatim>\<open>WriteFile\<close>,
  \<^verbatim>\<open>StartDirectory\<close>, \<^verbatim>\<open>EndDirectory\<close>) are methods whose bodies are not
  among the sources; like the calls on the operating system and on the ssh session they
  are recorded and answered by the environment. The destination of \<^verbatim>\<open>CopyFileBodyTo\<close> is the
  local file just opened or \<^verbatim>\<open>ioutil.Discard\<close>.
\<close>

datatype dest = ToFile path | Discard

text \<open>The source of \<^verbatim>\<open>WriteFile\<close>: the reader the caller passed or a local
  file just opened.\<close>

datatype source = FromReader | FromFile path

datatype action =
    OsStat path
  | OsMkdirAll path FileMode
  | OsChmod path FileMode
  | OsChtimes path gotime gotime
  | OsOpenFile path FileMode
  | FileClose path
  | OsOpen path
  | CallAcceptFn path FileInfo
  | NewSession
  | StdoutPipe
  | StdinPipe
  | SessionStart string
  | NewResourceProtocol
  | NewSourceProtocol
  | SessionWait
  | SessionClose
  | StdinClose
  | ReadHeaderOrReply
  | CopyFileBodyTo fileMsgHeader dest
  | WriteFile FileInfo source
  | StartDirectory FileInfo
  | EndDirectory

type_synonym trace = "action list"

datatype statResult = StatIsDir | StatNotDir | StatNotExist | StatError errmsg

datatype readResult = Hdr header | ReadError errmsg

text \<open>
  The environment answers the calls. Whether a call fails may depend on everything
  done so far, so the answer is a function of the trace and of the call.
  \<open>remoteOut\<close> is what the remote process sends: the successive results of
  \<^verbatim>\<open>ReadHeaderOrReply\<close>, after which the stream ends (\<^verbatim>\<open>io.EOF\<close>).
  \<open>realPath\<close>, \<open>escapeShellArg\<close> and \<open>NewFileInfoFromOS\<close> are functions
  of the repository whose definitions are not among the sources, and \<open>showHeader\<close>
  is the formatting of a header by \<^verbatim>\<open>%+v\<close>; the four are taken as parameters.
\<close>

record env =
  osErr :: "trace \<Rightarrow> action \<Rightarrow> errmsg option"
  osStat :: "trace \<Rightarrow> path \<Rightarrow> statResult"
  remoteOut :: "readResult list"
  realPath :: "path \<Rightarrow> path"
  escapeShellArg :: "string \<Rightarrow> string"
  showHeader :: "header \<Rightarrow> string"
  NewFileInfoFromOS :: "osFileInfo \<Rightarrow> string \<Rightarrow> FileInfo"

definition perform :: "env \<Rightarrow> action \<Rightarrow> trace \<Rightarrow> errmsg option \<times> trace" where
  "perform e a w = (osErr e w a, w @ [a])"

definition performStat :: "env \<Rightarrow> path \<Rightarrow> trace \<Rightarrow> statResult \<times> trace" where
  "performStat e p w = (osStat e w p, w @ [OsStat p])"

section \<open>Receiving: \<^verbatim>\<open>copyFileBodyFromRemote\<close> and the loop of \<^verbatim>\<open>ReceiveDir\<close>\<close>

definition copyFileBodyFromRemote ::
  "env \<Rightarrow> path \<Rightarrow> timeMsgHeader \<Rightarrow> fileMsgHeader \<Rightarrow> trace \<Rightarrow> errmsg option \<times> trace" where
  "copyFileBodyFromRemote e localFilename th fh w =
     (case perform e (OsOpenFile localFilename (fileMode fh)) w of
        (Some err, w1) \<Rightarrow> (Some (''failed to open destination file: err='' @ err), w1)
      | (None, w1) \<Rightarrow>
          (case perform e (CopyFileBodyTo fh (ToFile localFilename)) w1 of
             (Some err, w2) \<Rightarrow>
               (Some (''failed to copy file: err='' @ err),
                snd (perform e (FileClose localFilename) w2))
           | (None, w2) \<Rightarrow>
               (case perform e (OsChmod localFilename (fileMode fh))
                       (snd (perform e (FileClose localFilename) w2)) of
                  (Some err, w4) \<Rightarrow> (Some (''failed to change file mode: err='' @ err), w4)
                | (None, w4) \<Rightarrow>
                    (case perform e (OsChtimes localFilename (Atime th) (Mtime th)) w4 of
                       (Some err, w5) \<Rightarrow>
                         (Some (''failed to change file time: err='' @ err), w5)
                     | (None, w5) \<Rightarrow> (None, w5)))))"

definition isSubdirectory :: "path \<Rightarrow> path \<Rightarrow> errmsg + bool" where
  "isSubdirectory basepath targetpath =
     (case Rel basepath targetpath of
        Inl err \<Rightarrow> Inl err
      | Inr rel \<Rightarrow> Inr (\<not> HasPrefix rel (''..'' @ [Separator])))"

text \<open>The local variables of the handler of \<^verbatim>\<open>ReceiveDir\<close>.\<close>

record rdState =
  curDir :: path
  timeHeader :: timeMsgHeader
  timeHeaders :: "timeMsgHeader list"
  isFirstStartDirectory :: bool
  skipBaseDir :: path

text \<open>One pass through the body of the loop, for the header \<open>h\<close> just read:
  \<open>Inl\<close> is the error the handler returns, \<open>Inr\<close> the variables with which
  the loop goes on.\<close>

fun receiveDirStep ::
  "env \<Rightarrow> AcceptFunc \<Rightarrow> bool \<Rightarrow> rdState \<Rightarrow> header \<Rightarrow> trace \<Rightarrow> (errmsg + rdState) \<times> trace" where
  "receiveDirStep e acceptFn skipsFirstDirectory st (TimeMsg th) w =
     (Inr (st\<lparr>timeHeader := th\<rparr>), w)"
| "receiveDirStep e acceptFn skipsFirstDirectory st (StartDirectoryMsg dh) w =
     (let st1 = (if isFirstStartDirectory st then st\<lparr>isFirstStartDirectory := False\<rparr> else st)
      in if isFirstStartDirectory st \<and> skipsFirstDirectory then (Inr st1, w)
         else
           let st2 = st1\<lparr>curDir := Join [curDir st1, dirName dh],
                         timeHeaders := timeHeaders st1 @ [timeHeader st1]\<rparr>
           in if skipBaseDir st2 \<noteq> [] then (Inr st2, w)
              else
                let info = NewFileInfo (dirName dh) 0 (dirMode dh OR ModeDir)
                             (Mtime (timeHeader st2)) (Atime (timeHeader st2));
                    w1 = w @ [CallAcceptFn (Dir (curDir st2)) info]
                in (case acceptFn (Dir (curDir st2)) info of
                      (accepted, Some err) \<Rightarrow> (Inl (''error from accessFn: err='' @ err), w1)
                    | (accepted, None) \<Rightarrow>
                        if \<not> accepted then (Inr (st2\<lparr>skipBaseDir := curDir st2\<rparr>), w1)
                        else
                          (case perform e (OsMkdirAll (curDir st2) (dirMode dh)) w1 of
                             (Some err, w2) \<Rightarrow>
                               (Inl (''failed to create directory: err='' @ err), w2)
                           | (None, w2) \<Rightarrow>
                               (case perform e (OsChmod (curDir st2) (dirMode dh)) w2 of
                                  (Some err, w3) \<Rightarrow>
                                    (Inl (''failed to change directory mode: err='' @ err), w3)
                                | (None, w3) \<Rightarrow> (Inr st2, w3)))))"
| "receiveDirStep e acceptFn skipsFirstDirectory st EndDirectoryMsg w =
     (let popped = (timeHeaders st \<noteq> []);
          st1 = (if popped
                 then st\<lparr>timeHeader := last (timeHeaders st),
                         timeHeaders := butlast (timeHeaders st)\<rparr>
                 else st);
          r = (if popped \<and> skipBaseDir st = []
               then perform e (OsChtimes (curDir st) (Atime (timeHeader st1))
                                 (Mtime (timeHeader st1))) w
               else (None, w))
      in (case r of
            (Some err, w1) \<Rightarrow> (Inl (''failed to change directory time: err='' @ err), w1)
          | (None, w1) \<Rightarrow>
              let st2 = st1\<lparr>curDir := Dir (curDir st1)\<rparr>
              in if skipBaseDir st2 \<noteq> [] then
                   (case (if curDir st2 = [] then Inr True
                          else isSubdirectory (skipBaseDir st2) (curDir st2)) of
                      Inl err \<Rightarrow>
                        (Inl (''failed to check directory is subdirectory: err='' @ err), w1)
                    | Inr sub \<Rightarrow>
                        if \<not> sub then (Inr (st2\<lparr>skipBaseDir := []\<rparr>), w1)
                        else (Inr st2, w1))
                 else (Inr st2, w1)))"
| "receiveDirStep e acceptFn skipsFirstDirectory st (FileMsg fh) w =
     (if skipBaseDir st = [] then
        let info = NewFileInfo (fileName fh) (fileSize fh) (fileMode fh)
                     (Mtime (timeHeader st)) (Atime (timeHeader st));
            w1 = w @ [CallAcceptFn (curDir st) info]
        in (case acceptFn (curDir st) info of
              (accepted, Some err) \<Rightarrow> (Inl (''error from accessFn: err='' @ err), w1)
            | (accepted, None) \<Rightarrow>
                if \<not> accepted then (Inr st, w1)
                else
                  (case copyFileBodyFromRemote e (Join [curDir st, fileName fh])
                          (timeHeader st) fh w1 of
                     (Some err, w2) \<Rightarrow> (Inl err, w2)
                   | (None, w2) \<Rightarrow> (Inr st, w2)))
      else
        (case perform e (CopyFileBodyTo fh Discard) w of
           (Some err, w1) \<Rightarrow> (Inl err, w1)
         | (None, w1) \<Rightarrow> (Inr st, w1)))"
| "receiveDirStep e acceptFn skipsFirstDirectory st OkMsg w = (Inr st, w)"

text \<open>The loop \<^verbatim>\<open>for { h, err := s.ReadHeaderOrReply() ... }\<close> over what the remote
  sends: the end of the stream breaks the loop, a read error or an error of the body
  returns it.\<close>

fun receiveDirLoop ::
  "env \<Rightarrow> AcceptFunc \<Rightarrow> bool \<Rightarrow> rdState \<Rightarrow> readResult list \<Rightarrow> trace \<Rightarrow> errmsg option \<times> trace" where
  "receiveDirLoop e acceptFn skipsFirstDirectory st [] w = (None, w @ [ReadHeaderOrReply])"
| "receiveDirLoop e acceptFn skipsFirstDirectory st (ReadError err # rs) w =
     (Some (''failed to read scp message header: err='' @ err), w @ [ReadHeaderOrReply])"
| "receiveDirLoop e acceptFn skipsFirstDirectory st (Hdr h # rs) w =
     (case receiveDirStep e acceptFn skipsFirstDirectory st h (w @ [ReadHeaderOrReply]) of
        (Inl err, w1) \<Rightarrow> (Some err, w1)
      | (Inr st1, w1) \<Rightarrow> receiveDirLoop e acceptFn skipsFirstDirectory st1 rs w1)"

definition receiveDirHandler ::
  "env \<Rightarrow> AcceptFunc \<Rightarrow> bool \<Rightarrow> path \<Rightarrow> readResult list \<Rightarrow> trace \<Rightarrow> errmsg option \<times> trace" where
  "receiveDirHandler e acceptFn skipsFirstDirectory destDir rs w =
     receiveDirLoop e acceptFn skipsFirstDirectory
       \<lparr>curDir = destDir, timeHeader = zeroTimeHeader, timeHeaders = [],
        isFirstStartDirectory = True, skipBaseDir = []\<rparr> rs w"

section \<open>Sessions\<close>

text \<open>
  \<^verbatim>\<open>newResourceSession\<close> and \<^verbatim>\<open>newSinkSession\<close> open a session of the
  client, take its two pipes, build the command line and start it. Each failure
  returns at once; the calls made up to there, \<^verbatim>\<open>Close\<close> included, are in the
  trace. The flag group is built byte by byte, as \<^verbatim>\<open>append(opt, 'p')\<close> does.
\<close>

definition resourceOpt :: "bool \<Rightarrow> bool \<Rightarrow> bool \<Rightarrow> string" where
  "resourceOpt updatesPermission recursive remoteSrcIsDir =
     (let opt = ''-f'';
          opt = (if updatesPermission then opt @ [CHR ''p''] else opt);
          opt = (if recursive then opt @ [CHR ''r''] else opt);
          opt = (if remoteSrcIsDir then opt @ [CHR ''d''] else opt)
      in opt)"

definition resourceCmd :: "env \<Rightarrow> path \<Rightarrow> bool \<Rightarrow> string \<Rightarrow> bool \<Rightarrow> bool \<Rightarrow> string" where
  "resourceCmd e remoteSrcPath remoteSrcIsDir scpPath recursive updatesPermission =
     (let scpPath1 = (if scpPath = [] then ''scp'' else scpPath)
      in scpPath1 @ '' '' @ resourceOpt updatesPermission recursive remoteSrcIsDir
           @ '' '' @ escapeShellArg e remoteSrcPath)"

definition newResourceSession ::
  "env \<Rightarrow> path \<Rightarrow> bool \<Rightarrow> string \<Rightarrow> bool \<Rightarrow> bool \<Rightarrow> trace \<Rightarrow> errmsg option \<times> trace" where
  "newResourceSession e remoteSrcPath remoteSrcIsDir scpPath recursive updatesPermission w =
     (case perform e NewSession w of
        (Some err, w1) \<Rightarrow> (Some err, snd (perform e SessionClose w1))
      | (None, w1) \<Rightarrow>
     (case perform e StdoutPipe w1 of
        (Some err, w2) \<Rightarrow> (Some err, snd (perform e SessionClose w2))
      | (None, w2) \<Rightarrow>
     (case perform e StdinPipe w2 of
        (Some err, w3) \<Rightarrow> (Some err, snd (perform e SessionClose w3))
      | (None, w3) \<Rightarrow>
     (case perform e (SessionStart (resourceCmd e remoteSrcPath remoteSrcIsDir scpPath
                                      recursive updatesPermission)) w3 of
        (Some err, w4) \<Rightarrow> (Some err, snd (perform e SessionClose w4))
      | (None, w4) \<Rightarrow>
     (case perform e NewResourceProtocol w4 of
        (Some err, w5) \<Rightarrow> (Some err, snd (perform e SessionClose w5))
      | (None, w5) \<Rightarrow> (None, w5))))))"

definition sinkOpt :: "bool \<Rightarrow> bool \<Rightarrow> bool \<Rightarrow> string" where
  "sinkOpt updatesPermission recursive remoteDestIsDir =
     (let opt = ''-t'';
          opt = (if updatesPermission then opt @ [CHR ''p''] else opt);
          opt = (if recursive then opt @ [CHR ''r''] else opt);
          opt = (if remoteDestIsDir then opt @ [CHR ''d''] else opt)
      in opt)"

definition sinkCmd :: "env \<Rightarrow> path \<Rightarrow> bool \<Rightarrow> string \<Rightarrow> bool \<Rightarrow> bool \<Rightarrow> string" where
  "sinkCmd e remoteDestPath remoteDestIsDir scpPath recursive updatesPermission =
     (let scpPath1 = (if scpPath = [] then ''scp'' else scpPath)
      in scpPath1 @ '' '' @ sinkOpt updatesPermission recursive remoteDestIsDir
           @ '' '' @ escapeShellArg e remoteDestPath)"

definition newSinkSession ::
  "env \<Rightarrow> path \<Rightarrow> bool \<Rightarrow> string \<Rightarrow> bool \<Rightarrow> bool \<Rightarrow> trace \<Rightarrow> errmsg option \<times> trace" where
  "newSinkSession e remoteDestPath remoteDestIsDir scpPath recursive updatesPermission w =
     (case perform e NewSession w of
        (Some err, w1) \<Rightarrow> (Some err, w1)
      | (None, w1) \<Rightarrow>
     (case perform e StdoutPipe w1 of
        (Some err, w2) \<Rightarrow> (Some err, snd (perform e SessionClose w2))
      | (None, w2) \<Rightarrow>
     (case perform e StdinPipe w2 of
        (Some err, w3) \<Rightarrow> (Some err, snd (perform e SessionClose w3))
      | (None, w3) \<Rightarrow>
     (case perform e (SessionStart (sinkCmd e remoteDestPath remoteDestIsDir scpPath
                                      recursive updatesPermission)) w3 of
        (Some err, w4) \<Rightarrow> (Some err, snd (perform e SessionClose w4))
      | (None, w4) \<Rightarrow>
     (case perform e NewSourceProtocol w4 of
        (Some err, w5) \<Rightarrow> (Some err, w5)
      | (None, w5) \<Rightarrow> (None, w5))))))"

text \<open>
  \<^verbatim>\<open>ctx.Done()\<close> of the background context is \<^verbatim>\<open>nil\<close> (``can never
  canceled''); any other context has a channel that the cancellation closes.
\<close>

datatype goContext = Background | Cancellable

record SCP =
  ctx :: goContext

text \<open>
  \<^verbatim>\<open>runResourceSession\<close> and \<^verbatim>\<open>runSinkSession\<close>, as run by the calling
  thread: the handler gets what the remote sends; the deferred calls
  (\<^verbatim>\<open>s.Close()\<close>, and \<^verbatim>\<open>s.CloseStdin()\<close> around the handler of the sink)
  run on every way out. The traces are those of a run in which the watcher started by
  \<^verbatim>\<open>runResourceSession\<close> does not act; the watcher is the subject of the section on
  cancellation.
\<close>

type_synonym handler = "readResult list \<Rightarrow> trace \<Rightarrow> errmsg option \<times> trace"

definition runResourceSession ::
  "env \<Rightarrow> goContext \<Rightarrow> path \<Rightarrow> bool \<Rightarrow> string \<Rightarrow> bool \<Rightarrow> bool \<Rightarrow> handler \<Rightarrow> trace
     \<Rightarrow> errmsg option \<times> trace" where
  "runResourceSession e c remoteSrcPath remoteSrcIsDir scpPath recursive updatesPermission h w =
     (case newResourceSession e remoteSrcPath remoteSrcIsDir scpPath recursive
             updatesPermission w of
        (Some err, w1) \<Rightarrow> (Some err, w1)
      | (None, w1) \<Rightarrow>
          (case h (remoteOut e) w1 of
             (Some err, w2) \<Rightarrow> (Some err, snd (perform e SessionClose w2))
           | (None, w2) \<Rightarrow>
               (case perform e SessionWait w2 of
                  (r, w3) \<Rightarrow> (r, snd (perform e SessionClose w3)))))"

definition runSinkSession ::
  "env \<Rightarrow> path \<Rightarrow> bool \<Rightarrow> string \<Rightarrow> bool \<Rightarrow> bool \<Rightarrow> (trace \<Rightarrow> errmsg option \<times> trace) \<Rightarrow> trace
     \<Rightarrow> errmsg option \<times> trace" where
  "runSinkSession e remoteDestPath remoteDestIsDir scpPath recursive updatesPermission h w =
     (case newSinkSession e remoteDestPath remoteDestIsDir scpPath recursive
             updatesPermission w of
        (Some err, w1) \<Rightarrow> (Some err, w1)
      | (None, w1) \<Rightarrow>
          (case h w1 of
             (r, w2) \<Rightarrow>
               (case (r, snd (perform e StdinClose w2)) of
                  (Some err, w3) \<Rightarrow> (Some err, snd (perform e SessionClose w3))
                | (None, w3) \<Rightarrow>
                    (case perform e SessionWait w3 of
                       (r1, w4) \<Rightarrow> (r1, snd (perform e SessionClose w4))))))"

section \<open>\<^verbatim>\<open>ReceiveFile\<close> and \<^verbatim>\<open>ReceiveDir\<close>\<close>




definition ReceiveDir ::
  "env \<Rightarrow> SCP \<Rightarrow> path \<Rightarrow> path \<Rightarrow> AcceptFunc option \<Rightarrow> trace \<Rightarrow> errmsg option \<times> trace" where
  "ReceiveDir e s srcDir destDir acceptFn w =
     (let srcDir1 = realPath e (Clean srcDir);
          destDir1 = Clean destDir
      in (case performStat e destDir1 w of
            (StatError err, w1) \<Rightarrow>
              (Some (''failed to get information of destination directory: err='' @ err), w1)
          | (st, w1) \<Rightarrow>
              let skipsFirstDirectory = (st = StatNotExist);
                  r = (if skipsFirstDirectory then perform e (OsMkdirAll destDir1 mode0777) w1
                       else (None, w1))
              in (case r of
                    (Some err, w2) \<Rightarrow>
                      (Some (''failed to create destination directory: err='' @ err), w2)
                  | (None, w2) \<Rightarrow>
                      let acceptFn1 = (case acceptFn of None \<Rightarrow> acceptAny | Some f \<Rightarrow> f)
                      in runResourceSession e (ctx s) srcDir1 False [] True True
                           (receiveDirHandler e acceptFn1 skipsFirstDirectory destDir1) w2)))"

section \<open>\<^verbatim>\<open>Send\<close> and \<^verbatim>\<open>SendDir\<close>\<close>

definition Send :: "env \<Rightarrow> SCP \<Rightarrow> FileInfo \<Rightarrow> path \<Rightarrow> trace \<Rightarrow> errmsg option \<times> trace" where
  "Send e s info destFile w =
     (let destFile1 = Clean destFile;
          destFile2 = realPath e (Dir destFile1)
      in runSinkSession e destFile2 False [] False True
           (\<lambda>w1. case perform e (WriteFile info FromReader) w1 of
                    (Some err, w2) \<Rightarrow> (Some (''failed to copy file: err='' @ err), w2)
                  | (None, w2) \<Rightarrow> (None, w2)) w)"

text \<open>
  The local tree that \<^verbatim>\<open>filepath.Walk\<close> finds. A directory lists its entries in
  the order of the listing (lexical); a directory whose listing fails and an entry
  whose \<^verbatim>\<open>Lstat\<close> fails carry the error.
\<close>

datatype fsnode =
    FsFile osFileInfo
  | FsDir osFileInfo "fsnode list"
  | FsUnreadableDir osFileInfo errmsg
  | FsLstatError string errmsg

fun nodeName :: "fsnode \<Rightarrow> string" where
  "nodeName (FsFile i) = osName i"
| "nodeName (FsDir i ns) = osName i"
| "nodeName (FsUnreadableDir i err) = osName i"
| "nodeName (FsLstatError n err) = n"

fun nodeIsDir :: "fsnode \<Rightarrow> bool" where
  "nodeIsDir (FsDir i ns) = True"
| "nodeIsDir (FsUnreadableDir i err) = True"
| "nodeIsDir n = False"

text \<open>The two variables that the closures of \<^verbatim>\<open>SendDir\<close> share.\<close>

record sdState =
  prevDir :: path
  prevDirSkipped :: bool

text \<open>The loop of \<^verbatim>\<open>endDirectories\<close> over the elements of the relative path.\<close>

fun endDirectoriesLoop ::
  "env \<Rightarrow> sdState \<Rightarrow> string list \<Rightarrow> trace \<Rightarrow> errmsg option \<times> sdState \<times> trace" where
  "endDirectoriesLoop e st [] w = (None, st, w)"
| "endDirectoriesLoop e st (c # comps) w =
     (if c = ''..'' then
        (if prevDirSkipped st
         then endDirectoriesLoop e (st\<lparr>prevDirSkipped := False\<rparr>) comps w
         else (case perform e EndDirectory w of
                 (Some err, w1) \<Rightarrow> (Some err, st, w1)
               | (None, w1) \<Rightarrow> endDirectoriesLoop e st comps w1))
      else endDirectoriesLoop e st comps w)"

definition endDirectories ::
  "env \<Rightarrow> sdState \<Rightarrow> path \<Rightarrow> path \<Rightarrow> trace \<Rightarrow> errmsg option \<times> sdState \<times> trace" where
  "endDirectories e st prevDir1 dir w =
     (case Rel prevDir1 dir of
        Inl err \<Rightarrow> (Some err, st, w)
      | Inr rel \<Rightarrow> endDirectoriesLoop e st (splitSep rel) w)"

text \<open>What a walk function returns: \<^verbatim>\<open>nil\<close>, \<^verbatim>\<open>filepath.SkipDir\<close> or another
  error.\<close>

datatype walkErr = SkipDir | WalkError errmsg

text \<open>\<^verbatim>\<open>myWalkFn\<close> for an entry whose \<^verbatim>\<open>err\<close> argument is \<^verbatim>\<open>nil\<close>. The
  deferred assignment \<^verbatim>\<open>prevDir = dir\<close> runs on every return.\<close>

definition myWalkFn ::
  "env \<Rightarrow> AcceptFunc \<Rightarrow> path \<Rightarrow> osFileInfo \<Rightarrow> bool \<Rightarrow> sdState \<Rightarrow> trace
     \<Rightarrow> walkErr option \<times> sdState \<times> trace" where
  "myWalkFn e acceptFn p info isDir st w =
     (let dir = (if isDir then p else Dir p)
      in (case endDirectories e st (prevDir st) dir w of
            (Some err, st1, w1) \<Rightarrow> (Some (WalkError err), st1\<lparr>prevDir := dir\<rparr>, w1)
          | (None, st1, w1) \<Rightarrow>
              let scpFileInfo = NewFileInfoFromOS e info [];
                  w2 = w1 @ [CallAcceptFn (Dir p) scpFileInfo]
              in (case acceptFn (Dir p) scpFileInfo of
                    (accepted, Some err) \<Rightarrow> (Some (WalkError err), st1\<lparr>prevDir := dir\<rparr>, w2)
                  | (accepted, None) \<Rightarrow>
                      if isDir then
                        (if \<not> accepted
                         then (Some SkipDir, st1\<lparr>prevDirSkipped := True, prevDir := dir\<rparr>, w2)
                         else (case perform e (StartDirectory scpFileInfo) w2 of
                                 (Some err, w3) \<Rightarrow>
                                   (Some (WalkError err), st1\<lparr>prevDir := dir\<rparr>, w3)
                               | (None, w3) \<Rightarrow> (None, st1\<lparr>prevDir := dir\<rparr>, w3)))
                      else
                        (if accepted then
                           (case perform e (OsOpen p) w2 of
                              (Some err, w3) \<Rightarrow>
                                (Some (WalkError err), st1\<lparr>prevDir := dir\<rparr>, w3)
                            | (None, w3) \<Rightarrow>
                                (case perform e (WriteFile (NewFileInfoFromOS e info [])
                                                   (FromFile p)) w3 of
                                   (Some err, w4) \<Rightarrow>
                                     (Some (WalkError err), st1\<lparr>prevDir := dir\<rparr>, w4)
                                 | (None, w4) \<Rightarrow> (None, st1\<lparr>prevDir := dir\<rparr>, w4)))
                         else (None, st1\<lparr>prevDir := dir\<rparr>, w2)))))"

text \<open>
  \<^verbatim>\<open>filepath.Walk\<close> of the standard library with \<^verbatim>\<open>myWalkFn\<close> as its
  function. An error handed to \<^verbatim>\<open>myWalkFn\<close> is returned by its first statement.
  \<open>walk\<close> visits one entry, \<open>walkEntries\<close> the entries of a directory; a
  directory that answers \<^verbatim>\<open>SkipDir\<close> is passed over, any other error stops the
  walk.
\<close>

fun walk ::
  "env \<Rightarrow> AcceptFunc \<Rightarrow> path \<Rightarrow> fsnode \<Rightarrow> sdState \<Rightarrow> trace \<Rightarrow> walkErr option \<times> sdState \<times> trace"
and walkEntries ::
  "env \<Rightarrow> AcceptFunc \<Rightarrow> path \<Rightarrow> fsnode list \<Rightarrow> sdState \<Rightarrow> trace
     \<Rightarrow> walkErr option \<times> sdState \<times> trace" where
  "walk e acceptFn p (FsFile info) st w = myWalkFn e acceptFn p info False st w"
| "walk e acceptFn p (FsLstatError n err) st w = (Some (WalkError err), st, w)"
| "walk e acceptFn p (FsUnreadableDir info err) st w = (Some (WalkError err), st, w)"
| "walk e acceptFn p (FsDir info entries) st w =
     (case myWalkFn e acceptFn p info True st w of
        (Some err1, st1, w1) \<Rightarrow> (Some err1, st1, w1)
      | (None, st1, w1) \<Rightarrow> walkEntries e acceptFn p entries st1 w1)"
| "walkEntries e acceptFn p [] st w = (None, st, w)"
| "walkEntries e acceptFn p (n # ns) st w =
     (case walk e acceptFn (Join [p, nodeName n]) n st w of
        (Some err, st1, w1) \<Rightarrow>
          if \<not> nodeIsDir n \<or> err \<noteq> SkipDir then (Some err, st1, w1)
          else walkEntries e acceptFn p ns st1 w1
      | (None, st1, w1) \<Rightarrow> walkEntries e acceptFn p ns st1 w1)"




section \<open>Cancellation: the watcher of \<^verbatim>\<open>runResourceSession\<close>\<close>

text \<open>
  After the session is created, \<^verbatim>\<open>runResourceSession\<close> starts a goroutine that
  returns at once when \<^verbatim>\<open>ctx.Done()\<close> is \<^verbatim>\<open>nil\<close> and otherwise blocks on
  the channel and calls \<^verbatim>\<open>s.Close()\<close> when it is closed. \<^verbatim>\<open>runSinkSession\<close>
  takes no context and starts no goroutine. The calling thread runs the handler, which
  makes some number of calls on the session, then \<^verbatim>\<open>s.Wait()\<close>, and the deferred
  \<^verbatim>\<open>s.Close()\<close> on return. The two threads interleave; a state records where each
  of them is, whether the signal has fired, and who has called \<^verbatim>\<open>Close\<close>.
\<close>

datatype mainPc = InHandler nat | InWait | Returned

datatype watcherPc = NoWatcher | Blocked | Exited

datatype closer = ByWatcher | ByDefer

record runState =
  mainPc :: mainPc
  watcherPc :: watcherPc
  fired :: bool
  closes :: "closer list"



text \<open>The steps of the calling thread: a call of the handler on the session succeeds
  only while nobody has closed the session, and may fail at any time, upon which the
  handler returns the error and the deferred \<^verbatim>\<open>Close\<close> runs.\<close>

definition mainSteps :: "runState \<Rightarrow> runState list" where
  "mainSteps s =
     (case mainPc s of
        InHandler 0 \<Rightarrow> [s\<lparr>mainPc := InWait\<rparr>]
      | InHandler (Suc n) \<Rightarrow>
          (if closes s = [] then [s\<lparr>mainPc := InHandler n\<rparr>] else [])
          @ [s\<lparr>mainPc := Returned, closes := closes s @ [ByDefer]\<rparr>]
      | InWait \<Rightarrow> [s\<lparr>mainPc := Returned, closes := closes s @ [ByDefer]\<rparr>]
      | Returned \<Rightarrow> [])"

text \<open>The step of the watcher: \<^verbatim>\<open>case <-done: s.Close()\<close>.\<close>

definition watcherSteps :: "runState \<Rightarrow> runState list" where
  "watcherSteps s =
     (if watcherPc s = Blocked \<and> fired s
      then [s\<lparr>watcherPc := Exited, closes := closes s @ [ByWatcher]\<rparr>]
      else [])"

text \<open>The step of the outside world: the signal of a cancellable context fires.\<close>

definition fireSteps :: "goContext \<Rightarrow> runState \<Rightarrow> runState list" where
  "fireSteps c s = (if c = Cancellable \<and> \<not> fired s then [s\<lparr>fired := True\<rparr>] else [])"

definition successors :: "goContext \<Rightarrow> runState \<Rightarrow> runState list" where
  "successors c s = fireSteps c s @ watcherSteps s @ mainSteps s"

inductive reach :: "goContext \<Rightarrow> runState \<Rightarrow> runState \<Rightarrow> bool"
  for c :: goContext and s0 :: runState where
  reach_init: "reach c s0 s0"
| reach_step: "reach c s0 s \<Longrightarrow> s' \<in> set (successors c s) \<Longrightarrow> reach c s0 s'"

section \<open>Observations on traces\<close>

text \<open>The command lines handed to \<^verbatim>\<open>session.Start\<close>, the calls of the filter,
  and the numbers of directory markers in a trace.\<close>

fun startedCmds :: "trace \<Rightarrow> string list" where
  "startedCmds [] = []"
| "startedCmds (SessionStart c # as) = c # startedCmds as"
| "startedCmds (a # as) = startedCmds as"

fun writtenFiles :: "trace \<Rightarrow> (FileInfo \<times> source) list" where
  "writtenFiles [] = []"
| "writtenFiles (WriteFile i src # as) = (i, src) # writtenFiles as"
| "writtenFiles (a # as) = writtenFiles as"

fun isStartDirectory :: "action \<Rightarrow> bool" where
  "isStartDirectory (StartDirectory i) = True"
| "isStartDirectory a = False"

definition countStarts :: "trace \<Rightarrow> nat" where
  "countStarts w = length (filter isStartDirectory w)"

definition countEnds :: "trace \<Rightarrow> nat" where
  "countEnds w = length (filter (\<lambda>a. a = EndDirectory) w)"



definition sinkSetupOk :: "env \<Rightarrow> string \<Rightarrow> trace \<Rightarrow> bool" where
  "sinkSetupOk e cmd w =
     (osErr e w NewSession = None
      \<and> osErr e (w @ [NewSession]) StdoutPipe = None
      \<and> osErr e (w @ [NewSession, StdoutPipe]) StdinPipe = None
      \<and> osErr e (w @ [NewSession, StdoutPipe, StdinPipe]) (SessionStart cmd) = None
      \<and> osErr e (w @ [NewSession, StdoutPipe, StdinPipe, SessionStart cmd])
           NewSourceProtocol = None)"

section \<open>Local trees and paths in normal form\<close>

text \<open>
  A name of a directory entry is not empty, has no separator and is neither
  \<^verbatim>\<open>.\<close> nor \<^verbatim>\<open>..\<close>. A local tree is well formed when every entry has
  such a name and the entries of a directory have different names, as in a file
  system; the root of a tree that \<^verbatim>\<open>SendDir\<close> walks is a directory.
\<close>

definition isName :: "string \<Rightarrow> bool" where
  "isName n = (n \<noteq> [] \<and> Separator \<notin> set n \<and> n \<noteq> ''.'' \<and> n \<noteq> ''..'')"

fun wfNode :: "fsnode \<Rightarrow> bool" and wfEntries :: "fsnode list \<Rightarrow> bool" where
  "wfNode (FsFile i) = isName (osName i)"
| "wfNode (FsDir i ns) = (isName (osName i) \<and> wfEntries ns)"
| "wfNode (FsUnreadableDir i err) = isName (osName i)"
| "wfNode (FsLstatError n err) = isName n"
| "wfEntries [] = True"
| "wfEntries (n # ns) = (wfNode n \<and> nodeName n \<notin> set (map nodeName ns) \<and> wfEntries ns)"



text \<open>The directories a trace has started and not ended, and the number of
  \<^verbatim>\<open>..\<close> elements of a relative path.\<close>

definition openDirs :: "trace \<Rightarrow> int" where
  "openDirs w = int (countStarts w) - int (countEnds w)"


text \<open>
  A cleaned path is the rendering of a list of elements, after a separator when it is
  rooted: elements without separator, none empty or \<^verbatim>\<open>.\<close>, with
  \<^verbatim>\<open>..\<close> at the front only and only in a path that is not rooted. Two lists of
  names diverge when one is empty or their heads differ.
\<close>

definition goodElems :: "bool \<Rightarrow> string list \<Rightarrow> bool" where
  "goodElems rooted es =
     ((\<forall>x \<in> set es. x \<noteq> [] \<and> Separator \<notin> set x \<and> x \<noteq> ''.'')
      \<and> (rooted \<longrightarrow> ''..'' \<notin> set es)
      \<and> ''..'' \<notin> set (dropWhile (\<lambda>x. x = ''..'') es))"

definition render :: "bool \<Rightarrow> string list \<Rightarrow> path" where
  "render rooted es =
     (let out = (if rooted then [Separator] else []) @ joinSep es
      in if out = [] then ''.'' else out)"

definition diverge :: "string list \<Rightarrow> string list \<Rightarrow> bool" where
  "diverge as bs = (as = [] \<or> bs = [] \<or> hd as \<noteq> hd bs)"

text \<open>The state of the walk seen from a directory \<open>render r es\<close>: the previous
  directory is this one or lies below it, along the names \<open>qs\<close>, and a pending
  skip belongs to one of them. \<open>bal\<close> is the number of directories that are open
  once the walk is back at \<open>render r es\<close>.\<close>

definition walkInv :: "bool \<Rightarrow> string list \<Rightarrow> sdState \<Rightarrow> string list \<Rightarrow> bool" where
  "walkInv r es st qs =
     (prevDir st = render r (es @ qs) \<and> (\<forall>n \<in> set qs. isName n)
      \<and> (prevDirSkipped st \<longrightarrow> qs \<noteq> []))"

definition bal :: "sdState \<Rightarrow> string list \<Rightarrow> trace \<Rightarrow> int" where
  "bal st qs w = openDirs w - int (length qs) + (if prevDirSkipped st then 1 else 0)"

section \<open>Concrete inputs\<close>

text \<open>An environment in which no call fails and the destination does not exist, a
  filter that rejects the entries of one name, and some headers.\<close>

definition quietEnv :: env where
  "quietEnv =
     \<lparr>osErr = (\<lambda>w a. None), osStat = (\<lambda>w p. StatNotExist), remoteOut = [],
      realPath = (\<lambda>p. p), escapeShellArg = (\<lambda>p. p), showHeader = (\<lambda>h. []),
      NewFileInfoFromOS =
        (\<lambda>i n. NewFileInfo (osName i) (osSize i) (osMode i) (osModTime i) (osAccessTime i))\<rparr>"

definition rejectNamed :: "string \<Rightarrow> AcceptFunc" where
  "rejectNamed n parentDir info = (infoName info \<noteq> n, None)"

definition timeT :: timeMsgHeader where
  "timeT = \<lparr>Mtime = 10, Atime = 20\<rparr>"

definition fileF :: fileMsgHeader where
  "fileF = \<lparr>fileMode = 420, fileSize = 3, fileName = ''f''\<rparr>"

definition fileG :: fileMsgHeader where
  "fileG = \<lparr>fileMode = 420, fileSize = 5, fileName = ''g''\<rparr>"

definition dirX :: startDirectoryMsgHeader where
  "dirX = \<lparr>dirMode = 493, dirName = ''x''\<rparr>"

definition dirSrc :: startDirectoryMsgHeader where
  "dirSrc = \<lparr>dirMode = 493, dirName = ''src''\<rparr>"

text \<open>An environment in which every \<^verbatim>\<open>os.Chmod\<close> fails.\<close>

definition chmodFailEnv :: env where
  "chmodFailEnv =
     quietEnv\<lparr>osErr := (\<lambda>w a. case a of OsChmod p m \<Rightarrow> Some ''operation not permitted''
                                    | _ \<Rightarrow> None)\<rparr>"



definition infoA :: FileInfo where
  "infoA = NewFileInfo ''a.txt'' 12 420 100 200"

definition scp0 :: SCP where
  "scp0 = \<lparr>ctx = Background\<rparr>"






section \<open>Properties\<close>

subsection \<open>Every function only adds to the trace\<close>

lemma perform_simps [simp]:
  "fst (perform e a w) = osErr e w a" "snd (perform e a w) = w @ [a]"
  by (simp_all add: perform_def)

lemma prefix_copyFileBodyFromRemote: "prefix w (snd (copyFileBodyFromRemote e p th fh w))"
  by (auto simp: copyFileBodyFromRemote_def perform_def prefix_def split: option.splits)

lemma prefix_receiveDirStep: "prefix w (snd (receiveDirStep e f sk st h w))"
proof (cases h)
  case (FileMsg fh)
  have "prefix (w @ [a]) (snd (copyFileBodyFromRemote e p th fh (w @ [a])))" for a p th
    by (rule prefix_copyFileBodyFromRemote)
  then have "prefix w (snd (copyFileBodyFromRemote e p th fh (w @ [a])))" for a p th
    using append_prefixD by blast
  then have c: "copyFileBodyFromRemote e p th fh (w @ [a]) = (x, w') \<Longrightarrow> prefix w w'"
    for a p th x w'
    by (metis snd_conv)
  show ?thesis using FileMsg
    by (auto simp: perform_def Let_def split: option.splits prod.splits dest: c)
next
  case (StartDirectoryMsg dh)
  then show ?thesis
    by (auto simp: perform_def Let_def prefix_def split: option.splits prod.splits)
next
  case EndDirectoryMsg
  then show ?thesis
    by (auto simp: perform_def Let_def prefix_def split: option.splits prod.splits sum.splits)
qed auto

lemma prefix_receiveDirLoop: "prefix w (snd (receiveDirLoop e f sk st rs w))"
proof (induction rs arbitrary: st w)
  case Nil
  then show ?case by simp
next
  case (Cons r rs)
  show ?case
  proof (cases r)
    case (ReadError err)
    then show ?thesis by simp
  next
    case (Hdr h)
    obtain x w1 where step: "receiveDirStep e f sk st h (w @ [ReadHeaderOrReply]) = (x, w1)"
      by (cases "receiveDirStep e f sk st h (w @ [ReadHeaderOrReply])")
    have p1: "prefix (w @ [ReadHeaderOrReply]) w1"
      using prefix_receiveDirStep [of "w @ [ReadHeaderOrReply]" e f sk st h] step by simp
    then have p2: "prefix w w1" using append_prefixD by blast
    show ?thesis
    proof (cases x)
      case (Inl err)
      then show ?thesis using Hdr step p2 by simp
    next
      case (Inr st1)
      have "prefix w1 (snd (receiveDirLoop e f sk st1 rs w1))" by (rule Cons.IH)
      then show ?thesis using Hdr step Inr p2 by (auto intro: prefix_order.trans)
    qed
  qed
qed

lemma prefix_newResourceSession: "prefix w (snd (newResourceSession e p d sp r u w))"
  by (auto simp: newResourceSession_def perform_def prefix_def split: option.splits)

lemma prefix_runResourceSession:
  assumes "\<And>rs w1. prefix w1 (snd (h rs w1))"
  shows "prefix w (snd (runResourceSession e c p d sp r u h w))"
proof -
  obtain x w1 where n: "newResourceSession e p d sp r u w = (x, w1)"
    by (cases "newResourceSession e p d sp r u w")
  have p1: "prefix w w1" using prefix_newResourceSession [of w e p d sp r u] n by simp
  obtain y w2 where hh: "h (remoteOut e) w1 = (y, w2)" by (cases "h (remoteOut e) w1")
  have p2: "prefix w1 w2" using assms [of w1 "remoteOut e"] hh by simp
  have p3: "prefix w w2" using p1 p2 by (rule prefix_order.trans)
  have p4: "prefix w (w2 @ zs)" for zs using p3 by (simp add: prefix_prefix)
  show ?thesis using n hh p1 p3 p4
    by (auto simp: runResourceSession_def perform_def split: option.splits)
qed

lemma prefix_ReceiveDir_notexist:
  assumes "osStat e w (Clean destDir) = StatNotExist"
  shows "prefix (w @ [OsStat (Clean destDir), OsMkdirAll (Clean destDir) mode0777])
           (snd (ReceiveDir e s srcDir destDir acceptFn w))"
proof -
  let ?w2 = "w @ [OsStat (Clean destDir), OsMkdirAll (Clean destDir) mode0777]"
  have "prefix ?w2 (snd (runResourceSession e c p d sp r u (receiveDirHandler e f True dd) ?w2))"
    for c p d sp r u f dd
    by (rule prefix_runResourceSession) (simp add: receiveDirHandler_def prefix_receiveDirLoop)
  then show ?thesis using assms
    by (auto simp: ReceiveDir_def performStat_def perform_def Let_def split: option.splits)
qed

subsection \<open>Receiving a tree: rejected files\<close>

text \<open>
  C1. The remote sends the root directory with the files \<open>f\<close> and \<open>g\<close>, each
  header after its time header; the destination did not exist and the filter rejects
  \<open>f\<close>. No skip is active when the header of \<open>f\<close> arrives. The code goes on
  to the next header at once: after the call of the filter for \<open>f\<close> the next
  call on the session is \<^verbatim>\<open>ReadHeaderOrReply\<close>, and there is no
  \<^verbatim>\<open>CopyFileBodyTo\<close> for \<open>f\<close>, so the three bytes of its body are still in
  the stream when the next header is read. (The accepted file \<open>g\<close> shows the calls
  of a file that is copied.)
\<close>

theorem C1_rejected_file_body_left_unread:
  "receiveDirHandler quietEnv (rejectNamed ''f'') True ''/tmp/d''
     [Hdr (TimeMsg timeT), Hdr (StartDirectoryMsg dirSrc),
      Hdr (TimeMsg timeT), Hdr (FileMsg fileF),
      Hdr (TimeMsg timeT), Hdr (FileMsg fileG), Hdr EndDirectoryMsg] []
   = (None,
      [ReadHeaderOrReply, ReadHeaderOrReply, ReadHeaderOrReply, ReadHeaderOrReply,
       CallAcceptFn ''/tmp/d'' (NewFileInfo ''f'' 3 420 10 20),
       ReadHeaderOrReply, ReadHeaderOrReply,
       CallAcceptFn ''/tmp/d'' (NewFileInfo ''g'' 5 420 10 20),
       OsOpenFile ''/tmp/d/g'' 420, CopyFileBodyTo fileG (ToFile ''/tmp/d/g''),
       FileClose ''/tmp/d/g'', OsChmod ''/tmp/d/g'' 420, OsChtimes ''/tmp/d/g'' 20 10,
       ReadHeaderOrReply, ReadHeaderOrReply])"
  by code_simp

subsection \<open>Receiving a tree: leaving a skipped subtree\<close>

text \<open>
  C2. The remote sends the root directory with a directory \<open>x\<close>, which holds
  the file \<open>f\<close>, and then the file \<open>g\<close>; the destination did not exist and
  the filter rejects \<open>x\<close>, so the skip marker is \<^verbatim>\<open>/tmp/d/x\<close>. At the
  end marker of \<open>x\<close> the current directory goes up to \<^verbatim>\<open>/tmp/d\<close>, which
  is neither the rejected directory nor inside it, and yet the marker stays: the
  relative path from the marker to its parent is \<^verbatim>\<open>..\<close>, which does not begin
  with \<^verbatim>\<open>../\<close>, so \<^verbatim>\<open>isSubdirectory\<close> answers true. The file \<open>g\<close>
  that follows, a sibling of \<open>x\<close>, is therefore discarded and not offered to the
  filter.
\<close>

theorem C2_skip_outlives_rejected_directory:
  "receiveDirHandler quietEnv (rejectNamed ''x'') True ''/tmp/d''
     [Hdr (TimeMsg timeT), Hdr (StartDirectoryMsg dirSrc),
      Hdr (TimeMsg timeT), Hdr (StartDirectoryMsg dirX),
      Hdr (TimeMsg timeT), Hdr (FileMsg fileF), Hdr EndDirectoryMsg,
      Hdr (TimeMsg timeT), Hdr (FileMsg fileG), Hdr EndDirectoryMsg] []
   = (None,
      [ReadHeaderOrReply, ReadHeaderOrReply, ReadHeaderOrReply, ReadHeaderOrReply,
       CallAcceptFn ''/tmp/d'' (NewFileInfo ''x'' 0 (493 OR ModeDir) 10 20),
       ReadHeaderOrReply, ReadHeaderOrReply, CopyFileBodyTo fileF Discard,
       ReadHeaderOrReply, ReadHeaderOrReply, ReadHeaderOrReply,
       CopyFileBodyTo fileG Discard, ReadHeaderOrReply, ReadHeaderOrReply])
   \<and> receiveDirStep quietEnv (rejectNamed ''x'') True
       \<lparr>curDir = ''/tmp/d/x'', timeHeader = timeT, timeHeaders = [timeT],
        isFirstStartDirectory = False, skipBaseDir = ''/tmp/d/x''\<rparr> EndDirectoryMsg []
     = (Inr \<lparr>curDir = ''/tmp/d'', timeHeader = timeT, timeHeaders = [],
             isFirstStartDirectory = False, skipBaseDir = ''/tmp/d/x''\<rparr>, [])
   \<and> Rel ''/tmp/d/x'' ''/tmp/d'' = Inr ''..''
   \<and> isSubdirectory ''/tmp/d/x'' ''/tmp/d'' = Inr True"
  by code_simp

subsection \<open>Receiving a file: mode and times\<close>

text \<open>
  C8, as the claim states it, fails: when \<^verbatim>\<open>os.Chmod\<close> fails,
  \<^verbatim>\<open>copyFileBodyFromRemote\<close> returns that error at once; \<^verbatim>\<open>os.Chtimes\<close> is
  not called and the caller sees one failure only.
\<close>

theorem C8_chmod_failure_skips_chtimes:
  "copyFileBodyFromRemote chmodFailEnv ''/tmp/d/g'' \<lparr>Mtime = 10, Atime = 20\<rparr> fileG []
     = (Some ''failed to change file mode: err=operation not permitted'',
        [OsOpenFile ''/tmp/d/g'' 420, CopyFileBodyTo fileG (ToFile ''/tmp/d/g''),
         FileClose ''/tmp/d/g'', OsChmod ''/tmp/d/g'' 420])"
  by code_simp

text \<open>
  C8, amended. Once the file is opened and its body copied, the file is closed, then
  the mode of the header is applied, then the times of the pending time header. A
  failure of \<^verbatim>\<open>os.Chmod\<close> is returned at once, without a call of
  \<^verbatim>\<open>os.Chtimes\<close>; when \<^verbatim>\<open>os.Chmod\<close> succeeds, \<^verbatim>\<open>os.Chtimes\<close> is called
  and its failure, if any, is returned.
\<close>

theorem C8_chmod_then_chtimes:
  assumes "osErr e w (OsOpenFile p (fileMode fh)) = None"
    and "osErr e (w @ [OsOpenFile p (fileMode fh)]) (CopyFileBodyTo fh (ToFile p)) = None"
  shows "copyFileBodyFromRemote e p th fh w =
     (let w3 = w @ [OsOpenFile p (fileMode fh), CopyFileBodyTo fh (ToFile p), FileClose p]
      in case osErr e w3 (OsChmod p (fileMode fh)) of
           Some err \<Rightarrow>
             (Some (''failed to change file mode: err='' @ err), w3 @ [OsChmod p (fileMode fh)])
         | None \<Rightarrow>
             (case osErr e (w3 @ [OsChmod p (fileMode fh)]) (OsChtimes p (Atime th) (Mtime th)) of
                Some err \<Rightarrow>
                  (Some (''failed to change file time: err='' @ err),
                   w3 @ [OsChmod p (fileMode fh), OsChtimes p (Atime th) (Mtime th)])
              | None \<Rightarrow>
                  (None, w3 @ [OsChmod p (fileMode fh), OsChtimes p (Atime th) (Mtime th)])))"
  using assms by (simp add: copyFileBodyFromRemote_def perform_def split: option.splits)

text \<open>C8, amended, at a concrete input: the file opens, the body is copied, and the
  failure of \<^verbatim>\<open>os.Chmod\<close> is what the caller gets.\<close>

theorem C8_chmod_then_chtimes_witness:
  "osErr chmodFailEnv [] (OsOpenFile ''/tmp/d/g'' (fileMode fileG)) = None
   \<and> osErr chmodFailEnv [OsOpenFile ''/tmp/d/g'' (fileMode fileG)]
        (CopyFileBodyTo fileG (ToFile ''/tmp/d/g'')) = None
   \<and> fst (copyFileBodyFromRemote chmodFailEnv ''/tmp/d/g'' zeroTimeHeader fileG [])
        = Some ''failed to change file mode: err=operation not permitted''"
proof -
  have a: "osErr chmodFailEnv [] (OsOpenFile ''/tmp/d/g'' (fileMode fileG)) = None"
    by (simp add: chmodFailEnv_def quietEnv_def)
  have b: "osErr chmodFailEnv ([] @ [OsOpenFile ''/tmp/d/g'' (fileMode fileG)])
        (CopyFileBodyTo fileG (ToFile ''/tmp/d/g'')) = None"
    by (simp add: chmodFailEnv_def quietEnv_def)
  show ?thesis
    using a b C8_chmod_then_chtimes [OF a b, of zeroTimeHeader]
    by (simp add: chmodFailEnv_def quietEnv_def)
qed

subsection \<open>Receiving a tree: the first directory header\<close>






text \<open>
  C10. When the destination does not exist, the trace of \<^verbatim>\<open>ReceiveDir\<close> begins
  with the \<^verbatim>\<open>os.Stat\<close> of the cleaned destination and
  \<^verbatim>\<open>os.MkdirAll\<close> of it with mode \<^verbatim>\<open>0777\<close>, whatever happens afterwards:
  the session is opened and the first header read only after that, and a later
  failure does not undo it. The handler then runs with \<open>skipsFirstDirectory\<close>
  true, so the header of the root, with or without a time header before it, is
  consumed without a call of the filter.
\<close>

theorem C10_destination_root_created_first:
  "(osStat e w (Clean destDir) = StatNotExist \<longrightarrow>
      prefix (w @ [OsStat (Clean destDir), OsMkdirAll (Clean destDir) mode0777])
        (snd (ReceiveDir e s srcDir destDir acceptFn w)))
   \<and> (osStat e w (Clean destDir) = StatNotExist
        \<and> osErr e (w @ [OsStat (Clean destDir)]) (OsMkdirAll (Clean destDir) mode0777) = None
      \<longrightarrow> ReceiveDir e s srcDir destDir acceptFn w =
            runResourceSession e (ctx s) (realPath e (Clean srcDir)) False [] True True
              (receiveDirHandler e (case acceptFn of None \<Rightarrow> acceptAny | Some f \<Rightarrow> f) True
                 (Clean destDir))
              (w @ [OsStat (Clean destDir), OsMkdirAll (Clean destDir) mode0777]))
   \<and> receiveDirHandler e f True d (Hdr (TimeMsg th) # Hdr (StartDirectoryMsg dh) # rs) w1 =
       receiveDirLoop e f True
         \<lparr>curDir = d, timeHeader = th, timeHeaders = [], isFirstStartDirectory = False,
          skipBaseDir = []\<rparr> rs (w1 @ [ReadHeaderOrReply, ReadHeaderOrReply])
   \<and> receiveDirHandler e f True d (Hdr (StartDirectoryMsg dh) # rs) w1 =
       receiveDirLoop e f True
         \<lparr>curDir = d, timeHeader = zeroTimeHeader, timeHeaders = [],
          isFirstStartDirectory = False, skipBaseDir = []\<rparr> rs (w1 @ [ReadHeaderOrReply])
   \<and> mode0777 = 511"
proof (intro conjI impI)
  show "osStat e w (Clean destDir) = StatNotExist \<Longrightarrow>
      prefix (w @ [OsStat (Clean destDir), OsMkdirAll (Clean destDir) mode0777])
        (snd (ReceiveDir e s srcDir destDir acceptFn w))"
    by (rule prefix_ReceiveDir_notexist)
qed (simp_all add: ReceiveDir_def performStat_def perform_def Let_def receiveDirHandler_def mode0777_def)

text \<open>C10 at a concrete input: a fresh destination and a remote that sends nothing.\<close>

theorem C10_destination_root_created_first_witness:
  "osStat quietEnv [] (Clean ''/tmp/d'') = StatNotExist
   \<and> prefix [OsStat ''/tmp/d'', OsMkdirAll ''/tmp/d'' 511]
       (snd (ReceiveDir quietEnv scp0 ''/r/src'' ''/tmp/d'' None []))
   \<and> snd (ReceiveDir quietEnv scp0 ''/r/src'' ''/tmp/d'' None []) =
       [OsStat ''/tmp/d'', OsMkdirAll ''/tmp/d'' 511, NewSession, StdoutPipe, StdinPipe,
        SessionStart ''scp -fpr /r/src'', NewResourceProtocol, ReadHeaderOrReply, SessionWait,
        SessionClose]"
proof -
  have c: "Clean ''/tmp/d'' = ''/tmp/d''" by code_simp
  have h1: "osStat quietEnv [] (Clean ''/tmp/d'') = StatNotExist" by (simp add: quietEnv_def)
  have m: "mode0777 = 511" by (simp add: mode0777_def)
  note t = C10_destination_root_created_first
             [of quietEnv "[]" "''/tmp/d''" scp0 "''/r/src''" None]
  have p: "prefix ([] @ [OsStat (Clean ''/tmp/d''), OsMkdirAll (Clean ''/tmp/d'') mode0777])
        (snd (ReceiveDir quietEnv scp0 ''/r/src'' ''/tmp/d'' None []))"
    using conjunct1 [OF t] h1 by (rule mp)
  have p': "prefix [OsStat ''/tmp/d'', OsMkdirAll ''/tmp/d'' 511]
       (snd (ReceiveDir quietEnv scp0 ''/r/src'' ''/tmp/d'' None []))"
    using p unfolding c m by simp
  have tr: "snd (ReceiveDir quietEnv scp0 ''/r/src'' ''/tmp/d'' None []) =
       [OsStat ''/tmp/d'', OsMkdirAll ''/tmp/d'' 511, NewSession, StdoutPipe, StdinPipe,
        SessionStart ''scp -fpr /r/src'', NewResourceProtocol, ReadHeaderOrReply, SessionWait,
        SessionClose]"
    by code_simp
  show ?thesis using h1 p' tr by blast
qed

subsection \<open>Receiving a single file: where it is written\<close>










subsection \<open>The command line\<close>

lemma startedCmds_append: "startedCmds (w @ v) = startedCmds w @ startedCmds v"
  by (induction w rule: startedCmds.induct) simp_all

lemma writtenFiles_append: "writtenFiles (w @ v) = writtenFiles w @ writtenFiles v"
  by (induction w rule: writtenFiles.induct) simp_all

lemma resourceOpt_eq:
  "resourceOpt u r d = ''-f'' @ (if u then ''p'' else []) @ (if r then ''r'' else []) @ (if d then ''d'' else [])"
  by (simp add: resourceOpt_def)

lemma sinkOpt_eq:
  "sinkOpt u r d = ''-t'' @ (if u then ''p'' else []) @ (if r then ''r'' else []) @ (if d then ''d'' else [])"
  by (simp add: sinkOpt_def)

lemma startedCmds_newResourceSession:
  "startedCmds (snd (newResourceSession e p d sp r u w)) =
     startedCmds w @
       (if osErr e w NewSession = None \<and> osErr e (w @ [NewSession]) StdoutPipe = None
           \<and> osErr e (w @ [NewSession, StdoutPipe]) StdinPipe = None
        then [resourceCmd e p d sp r u] else [])"
  by (simp add: newResourceSession_def perform_def startedCmds_append split: option.splits)

lemma startedCmds_newSinkSession:
  "startedCmds (snd (newSinkSession e p d sp r u w)) =
     startedCmds w @
       (if osErr e w NewSession = None \<and> osErr e (w @ [NewSession]) StdoutPipe = None
           \<and> osErr e (w @ [NewSession, StdoutPipe]) StdinPipe = None
        then [sinkCmd e p d sp r u] else [])"
  by (simp add: newSinkSession_def perform_def startedCmds_append split: option.splits)

text \<open>
  C7. The command line of either kind of session is the name of the scp binary
  (\<^verbatim>\<open>scp\<close> when none is given), a space, one flag group, a space and the
  shell-escaped path. The flag group is \<^verbatim>\<open>-f\<close> for a receiving session and
  \<^verbatim>\<open>-t\<close> for a sending one, followed by \<^verbatim>\<open>p\<close> when permissions and times
  are preserved, \<^verbatim>\<open>r\<close> when recursive and \<^verbatim>\<open>d\<close> when the path is asserted
  to be a directory. It is the only command the session starts, and it is started
  when the session and its two pipes could be opened.
\<close>

theorem C7_command_line:
  "resourceCmd e p d sp r u =
     (if sp = [] then ''scp'' else sp) @ '' -f'' @ (if u then ''p'' else [])
       @ (if r then ''r'' else []) @ (if d then ''d'' else []) @ '' '' @ escapeShellArg e p
   \<and> sinkCmd e p d sp r u =
     (if sp = [] then ''scp'' else sp) @ '' -t'' @ (if u then ''p'' else [])
       @ (if r then ''r'' else []) @ (if d then ''d'' else []) @ '' '' @ escapeShellArg e p
   \<and> startedCmds (snd (newResourceSession e p d sp r u w)) =
       startedCmds w @
         (if osErr e w NewSession = None \<and> osErr e (w @ [NewSession]) StdoutPipe = None
             \<and> osErr e (w @ [NewSession, StdoutPipe]) StdinPipe = None
          then [resourceCmd e p d sp r u] else [])
   \<and> startedCmds (snd (newSinkSession e p d sp r u w)) =
       startedCmds w @
         (if osErr e w NewSession = None \<and> osErr e (w @ [NewSession]) StdoutPipe = None
             \<and> osErr e (w @ [NewSession, StdoutPipe]) StdinPipe = None
          then [sinkCmd e p d sp r u] else [])"
  unfolding startedCmds_newResourceSession startedCmds_newSinkSession
  by (simp add: resourceCmd_def sinkCmd_def resourceOpt_eq sinkOpt_eq)

lemma newSinkSession_ok:
  "sinkSetupOk e (sinkCmd e p d sp r u) w \<Longrightarrow>
   newSinkSession e p d sp r u w =
     (None, w @ [NewSession, StdoutPipe, StdinPipe, SessionStart (sinkCmd e p d sp r u),
                 NewSourceProtocol])"
  by (simp add: newSinkSession_def sinkSetupOk_def perform_def)

lemma newSinkSession_fail:
  "\<not> sinkSetupOk e (sinkCmd e p d sp r u) w \<Longrightarrow> fst (newSinkSession e p d sp r u w) \<noteq> None"
  by (auto simp: newSinkSession_def sinkSetupOk_def perform_def split: option.splits)

lemma writtenFiles_newSinkSession:
  "writtenFiles (snd (newSinkSession e p d sp r u w)) = writtenFiles w"
  by (simp add: newSinkSession_def perform_def writtenFiles_append split: option.splits)

lemma sendCmd: "sinkCmd e p False [] False True = ''scp -tp '' @ escapeShellArg e p"
  by (simp add: sinkCmd_def sinkOpt_def)

lemma startedCmds_runSinkSession:
  assumes "\<And>w1. startedCmds (snd (h w1)) = startedCmds w1"
  shows "startedCmds (snd (runSinkSession e p d sp r u h w)) = startedCmds (snd (newSinkSession e p d sp r u w))"
proof -
  obtain x w1 where n: "newSinkSession e p d sp r u w = (x, w1)"
    by (cases "newSinkSession e p d sp r u w")
  obtain y w2 where hh: "h w1 = (y, w2)" by (cases "h w1")
  have "startedCmds w2 = startedCmds w1" using assms [of w1] hh by simp
  then show ?thesis using n hh
    by (auto simp: runSinkSession_def perform_def startedCmds_append split: option.splits)
qed

text \<open>
  C9. The path in the command line of \<^verbatim>\<open>Send\<close> is the directory part of the
  cleaned \<open>destFile\<close> (passed through \<open>realPath\<close> and shell-escaped); the only
  file written to the remote is announced with \<open>info\<close>, from which the remote
  takes the name; and two destinations with the same directory part give the same
  run, so the last element of \<open>destFile\<close> never reaches the remote.
\<close>

theorem C9_send_remote_path:
  "startedCmds (snd (Send e s info destFile w)) =
     startedCmds w @
       (if osErr e w NewSession = None \<and> osErr e (w @ [NewSession]) StdoutPipe = None
           \<and> osErr e (w @ [NewSession, StdoutPipe]) StdinPipe = None
        then [''scp -tp '' @ escapeShellArg e (realPath e (Dir (Clean destFile)))] else [])
   \<and> writtenFiles (snd (Send e s info destFile w)) =
       writtenFiles w @
         (if sinkSetupOk e (''scp -tp '' @ escapeShellArg e (realPath e (Dir (Clean destFile)))) w
          then [(info, FromReader)] else [])
   \<and> (Dir (Clean destFile) = Dir (Clean destFile') \<longrightarrow>
        Send e s info destFile w = Send e s info destFile' w)"
proof (intro conjI)
  let ?p = "realPath e (Dir (Clean destFile))"
  let ?h = "\<lambda>w1. case perform e (WriteFile info FromReader) w1 of
                    (Some err, w2) \<Rightarrow> (Some (''failed to copy file: err='' @ err), w2)
                  | (None, w2) \<Rightarrow> (None, w2)"
  have S: "Send e s info destFile w = runSinkSession e ?p False [] False True ?h w"
    by (simp add: Send_def)
  have h1: "startedCmds (snd (?h w1)) = startedCmds w1" for w1
    by (simp add: perform_def startedCmds_append split: option.splits)
  show "startedCmds (snd (Send e s info destFile w)) =
     startedCmds w @
       (if osErr e w NewSession = None \<and> osErr e (w @ [NewSession]) StdoutPipe = None
           \<and> osErr e (w @ [NewSession, StdoutPipe]) StdinPipe = None
        then [''scp -tp '' @ escapeShellArg e (realPath e (Dir (Clean destFile)))] else [])"
    unfolding S startedCmds_runSinkSession [of ?h, OF h1] startedCmds_newSinkSession sendCmd ..
  show "writtenFiles (snd (Send e s info destFile w)) =
       writtenFiles w @
         (if sinkSetupOk e (''scp -tp '' @ escapeShellArg e (realPath e (Dir (Clean destFile)))) w
          then [(info, FromReader)] else [])"
  proof (cases "sinkSetupOk e (sinkCmd e ?p False [] False True) w")
    case True
    then have "newSinkSession e ?p False [] False True w =
       (None, w @ [NewSession, StdoutPipe, StdinPipe,
                   SessionStart (sinkCmd e ?p False [] False True), NewSourceProtocol])"
      by (rule newSinkSession_ok)
    then show ?thesis using True unfolding S
      by (simp add: runSinkSession_def perform_def writtenFiles_append sendCmd split: option.splits)
  next
    case False
    obtain x w1 where n: "newSinkSession e ?p False [] False True w = (x, w1)"
      by (cases "newSinkSession e ?p False [] False True w")
    have "x \<noteq> None" using newSinkSession_fail [OF False] n by simp
    moreover have "writtenFiles w1 = writtenFiles w"
      using writtenFiles_newSinkSession [of e ?p False "[]" False True w] n by simp
    ultimately show ?thesis using False n unfolding S
      by (auto simp: runSinkSession_def sendCmd)
  qed
  show "Dir (Clean destFile) = Dir (Clean destFile') \<longrightarrow>
        Send e s info destFile w = Send e s info destFile' w"
    by (simp add: Send_def)
qed

text \<open>C9 at a concrete input: \<^verbatim>\<open>/home/u/a.txt\<close> and \<^verbatim>\<open>/home/u/b.txt\<close>
  give the same run, with the command \<^verbatim>\<open>scp -tp /home/u\<close>.\<close>

theorem C9_send_remote_path_witness:
  "Dir (Clean ''/home/u/a.txt'') = Dir (Clean ''/home/u/b.txt'')
   \<and> Send quietEnv scp0 infoA ''/home/u/a.txt'' [] = Send quietEnv scp0 infoA ''/home/u/b.txt'' []
   \<and> startedCmds (snd (Send quietEnv scp0 infoA ''/home/u/a.txt'' [])) = [''scp -tp /home/u'']
   \<and> writtenFiles (snd (Send quietEnv scp0 infoA ''/home/u/a.txt'' [])) = [(infoA, FromReader)]"
proof -
  have d: "Dir (Clean ''/home/u/a.txt'') = ''/home/u''" by code_simp
  have d': "Dir (Clean ''/home/u/b.txt'') = ''/home/u''" by code_simp
  have ok: "sinkSetupOk quietEnv c []" for c by (simp add: sinkSetupOk_def quietEnv_def)
  have q: "osErr quietEnv w a = None" "escapeShellArg quietEnv p = p" "realPath quietEnv p = p"
    for w a p
    by (simp_all add: quietEnv_def)
  note t = C9_send_remote_path
             [of quietEnv scp0 infoA "''/home/u/a.txt''" "[]" "''/home/u/b.txt''"]
  have e1: "startedCmds (snd (Send quietEnv scp0 infoA ''/home/u/a.txt'' [])) = [''scp -tp /home/u'']"
    using conjunct1 [OF t] by (simp add: d q)
  have e2: "writtenFiles (snd (Send quietEnv scp0 infoA ''/home/u/a.txt'' [])) = [(infoA, FromReader)]"
    using conjunct1 [OF conjunct2 [OF t]] ok by (simp add: d q)
  have e0: "Dir (Clean ''/home/u/a.txt'') = Dir (Clean ''/home/u/b.txt'')"
    using d d' by simp
  have e3: "Send quietEnv scp0 infoA ''/home/u/a.txt'' [] = Send quietEnv scp0 infoA ''/home/u/b.txt'' []"
    using conjunct2 [OF conjunct2 [OF t]] e0 by (rule mp)
  show ?thesis using e0 e1 e2 e3 by blast
qed

subsection \<open>Cancellation\<close>








subsection \<open>Paths in normal form\<close>

lemma splitSep_nonempty [simp]: "splitSep s \<noteq> []"
  by (induction s) (auto split: list.splits)

lemma splitSep_append: "splitSep (a @ Separator # b) = splitSep a @ splitSep b"
proof (induction a)
  case Nil
  then show ?case by simp
next
  case (Cons c a)
  then show ?case
    by (cases "splitSep a") (auto split: list.splits)
qed

lemma splitSep_nosep: "Separator \<notin> set x \<Longrightarrow> splitSep x = [x]"
  by (induction x) auto


lemma splitSep_joinSep:
  "es \<noteq> [] \<Longrightarrow> \<forall>x \<in> set es. Separator \<notin> set x \<Longrightarrow> splitSep (joinSep es) = es"
proof (induction es rule: joinSep.induct)
  case 1
  then show ?case by simp
next
  case (2 x)
  then show ?case by (simp add: splitSep_nosep)
next
  case (3 x y ys)
  then show ?case by (simp add: splitSep_append splitSep_nosep)
qed

lemma joinSep_snoc: "es \<noteq> [] \<Longrightarrow> joinSep (es @ [n]) = joinSep es @ Separator # n"
  by (induction es rule: joinSep.induct) auto

lemma joinSep_Cons: "es \<noteq> [] \<Longrightarrow> joinSep (x # es) = x @ Separator # joinSep es"
  by (cases es) auto

lemma joinSep_eq_Nil: "\<forall>x \<in> set es. x \<noteq> [] \<Longrightarrow> joinSep es = [] \<longleftrightarrow> es = []"
  by (induction es rule: joinSep.induct) auto

lemma cleanElems_append:
  "cleanElems r acc (xs @ ys) = cleanElems r (rev (cleanElems r acc xs)) ys"
  by (induction xs arbitrary: acc) (auto split: list.splits)


lemma dw_app:
  "\<not> (\<forall>y \<in> set es. y = ''..'') \<Longrightarrow>
   dropWhile (\<lambda>x. x = ''..'') (es @ zs) = dropWhile (\<lambda>x. x = ''..'') es @ zs"
  by (auto simp: dropWhile_append1)

lemma dw_app_all:
  "\<forall>y \<in> set es. y = ''..'' \<Longrightarrow>
   dropWhile (\<lambda>x. x = ''..'') (es @ zs) = dropWhile (\<lambda>x. x = ''..'') zs"
  by (simp add: dropWhile_append2)

lemma Separator_not_dot [simp]: "Separator \<noteq> CHR ''.''" "CHR ''.'' \<noteq> Separator"
  by (simp_all add: Separator_def)

lemma goodElems_Nil [simp]: "goodElems r []"
  by (simp add: goodElems_def)

lemma goodElems_snoc_name: "goodElems r es \<Longrightarrow> isName n \<Longrightarrow> goodElems r (es @ [n])"
  by (cases "\<forall>y \<in> set es. y = ''..''")
     (auto simp: goodElems_def isName_def dw_app dw_app_all simp del: dropWhile_eq_Nil_conv)

lemma goodElems_append_names:
  "goodElems r es \<Longrightarrow> \<forall>n \<in> set ns. isName n \<Longrightarrow> goodElems r (es @ ns)"
proof (induction ns rule: rev_induct)
  case Nil
  then show ?case by simp
next
  case (snoc n ns)
  then have "goodElems r ((es @ ns) @ [n])" by (intro goodElems_snoc_name) auto
  then show ?case by simp
qed

lemma cleanElems_good_aux:
  "goodElems r (pre @ post) \<Longrightarrow> cleanElems r (rev pre) post = pre @ post"
proof (induction post arbitrary: pre)
  case Nil
  then show ?case by simp
next
  case (Cons x post)
  have g: "goodElems r ((pre @ [x]) @ post)" using Cons.prems by simp
  have ih: "cleanElems r (rev (pre @ [x])) post = (pre @ [x]) @ post"
    using Cons.IH [OF g] .
  have x1: "x \<noteq> []" "x \<noteq> ''.''" using Cons.prems by (auto simp: goodElems_def)
  show ?case
  proof (cases "x = ''..''")
    case False
    then show ?thesis using x1 ih by simp
  next
    case True
    have nr: "\<not> r" using Cons.prems True by (auto simp: goodElems_def)
    have allup: "\<forall>y \<in> set pre. y = ''..''"
    proof (rule ccontr)
      assume "\<not> (\<forall>y \<in> set pre. y = ''..'')"
      then have "dropWhile (\<lambda>x. x = ''..'') (pre @ x # post)
               = dropWhile (\<lambda>x. x = ''..'') pre @ x # post"
        by (rule dw_app)
      then show False using Cons.prems True by (simp add: goodElems_def)
    qed
    show ?thesis
    proof (cases "rev pre")
      case Nil
      then show ?thesis using True nr ih by simp
    next
      case (Cons a as)
      then have "a \<in> set pre" by (metis list.set_intros(1) set_rev)
      then have "a = ''..''" using allup by simp
      then show ?thesis using True Cons ih by simp
    qed
  qed
qed

lemma cleanElems_good: "goodElems r es \<Longrightarrow> cleanElems r [] es = es"
  using cleanElems_good_aux [of r "[]" es] by simp





lemma Clean_render: "Clean p = render (isRooted p) (cleanElems (isRooted p) [] (splitSep p))"
  by (simp add: Clean_def render_def)


lemma render_nonempty [simp]: "render r es \<noteq> []"
  by (simp add: render_def Let_def)

lemma goodElems_elem:
  "goodElems r es \<Longrightarrow> x \<in> set es \<Longrightarrow> x \<noteq> [] \<and> Separator \<notin> set x \<and> x \<noteq> ''.''"
  by (simp add: goodElems_def)

lemma joinSep_hd:
  "es \<noteq> [] \<Longrightarrow> hd es \<noteq> [] \<Longrightarrow> joinSep es \<noteq> [] \<and> hd (joinSep es) = hd (hd es)"
  by (induction es rule: joinSep.induct) auto

lemma isRooted_render: "goodElems r es \<Longrightarrow> isRooted (render r es) = r"
proof (cases r)
  case True
  then show ?thesis by (simp add: render_def isRooted_def)
next
  case False
  assume g: "goodElems r es"
  show ?thesis
  proof (cases es)
    case Nil
    then show ?thesis using False by (simp add: render_def isRooted_def)
  next
    case (Cons x xs)
    have x: "x \<noteq> []" "Separator \<notin> set x" using g Cons goodElems_elem [of r es x] by auto
    then have "hd x \<noteq> Separator" by (cases x) auto
    moreover have "joinSep es \<noteq> [] \<and> hd (joinSep es) = hd x"
      using joinSep_hd [of es] Cons x by simp
    ultimately show ?thesis using False
      by (cases "joinSep es") (auto simp: render_def isRooted_def)
  qed
qed

lemma cleanElems_splitSep_render:
  assumes g: "goodElems r es"
  shows "cleanElems r [] (splitSep (render r es)) = es"
proof (cases "es = []")
  case True
  then show ?thesis by (cases r) (simp_all add: render_def Separator_def)
next
  case False
  have sf: "\<forall>x \<in> set es. Separator \<notin> set x" using g by (simp add: goodElems_def)
  have ne: "joinSep es \<noteq> []"
    using False g joinSep_eq_Nil [of es] by (auto simp: goodElems_def)
  have sp: "splitSep (joinSep es) = es" using False sf by (rule splitSep_joinSep)
  show ?thesis
  proof (cases r)
    case True
    then show ?thesis using sp cleanElems_good [OF g] by (simp add: render_def)
  next
    case False
    then show ?thesis using ne sp cleanElems_good [OF g] by (simp add: render_def)
  qed
qed

lemma Clean_render_good: "goodElems r es \<Longrightarrow> Clean (render r es) = render r es"
  by (simp add: Clean_render isRooted_render cleanElems_splitSep_render)

lemma render_inject:
  "goodElems r xs \<Longrightarrow> goodElems r ys \<Longrightarrow> render r xs = render r ys \<Longrightarrow> xs = ys"
  by (metis cleanElems_splitSep_render)

lemma isRooted_append: "a \<noteq> [] \<Longrightarrow> isRooted (a @ b) = isRooted a"
  by (cases a) (simp_all add: isRooted_def)

lemma Join_render:
  assumes g: "goodElems r es" and n: "isName n"
  shows "Join [render r es, n] = render r (es @ [n])"
proof -
  let ?a = "render r es"
  have j: "Join [?a, n] = Clean (?a @ Separator # n)" by (simp add: Join_def)
  have rt: "isRooted (?a @ Separator # n) = r"
    using isRooted_append [of ?a] isRooted_render [OF g] by simp
  have sn: "splitSep n = [n]" using n by (simp add: isName_def splitSep_nosep)
  have "cleanElems r [] (splitSep (?a @ Separator # n)) = cleanElems r (rev es) [n]"
    by (simp add: splitSep_append sn cleanElems_append cleanElems_splitSep_render [OF g])
  also have "\<dots> = es @ [n]" using n by (simp add: isName_def)
  finally show ?thesis using j rt by (simp add: Clean_render)
qed

lemma dropWhile_nosep:
  "Separator \<notin> set n \<Longrightarrow> dropWhile (\<lambda>c. c \<noteq> Separator) (rev n @ zs)
     = dropWhile (\<lambda>c. c \<noteq> Separator) zs"
  by (induction n arbitrary: zs) auto

lemma upto_last_sep:
  "Separator \<notin> set n \<Longrightarrow>
   rev (dropWhile (\<lambda>c. c \<noteq> Separator) (rev (a @ Separator # n))) = a @ [Separator]"
  using dropWhile_nosep [of n "Separator # rev a"] by simp

lemma upto_last_sep_none:
  "Separator \<notin> set n \<Longrightarrow> rev (dropWhile (\<lambda>c. c \<noteq> Separator) (rev n)) = []"
  using dropWhile_nosep [of n "[]"] by simp

lemma Dir_render:
  assumes g: "goodElems r es" and n: "isName n"
  shows "Dir (render r (es @ [n])) = render r es"
proof -
  have ns: "Separator \<notin> set n" "n \<noteq> []" using n by (simp_all add: isName_def)
  show ?thesis
  proof (cases "es = []")
    case True
    show ?thesis
    proof (cases r)
      case True
      have "render r (es @ [n]) = [] @ Separator # n" using True \<open>es = []\<close> by (simp add: render_def)
      then have "Dir (render r (es @ [n])) = Clean ([] @ [Separator])"
        unfolding Dir_def using upto_last_sep [OF ns(1), of "[]"] by simp
      then show ?thesis using True \<open>es = []\<close> by (simp add: Clean_def render_def isRooted_def)
    next
      case False
      have "render r (es @ [n]) = n" using False \<open>es = []\<close> ns by (simp add: render_def)
      then have "Dir (render r (es @ [n])) = Clean []"
        unfolding Dir_def using upto_last_sep_none [OF ns(1)] by (simp del: dropWhile_eq_Nil_conv)
      then show ?thesis using False \<open>es = []\<close> by (simp add: Clean_def render_def isRooted_def)
    qed
  next
    case False
    let ?a = "render r es"
    have ne: "joinSep es \<noteq> []"
      using False g joinSep_eq_Nil [of es] by (auto simp: goodElems_def)
    have "render r (es @ [n]) = ?a @ Separator # n"
      using False ne by (simp add: render_def joinSep_snoc)
    then have d: "Dir (render r (es @ [n])) = Clean (?a @ Separator # [])"
      unfolding Dir_def using upto_last_sep [OF ns(1), of ?a] by simp
    have rt: "isRooted (?a @ Separator # []) = r"
      using isRooted_append [of ?a] isRooted_render [OF g] by simp
    have "cleanElems r [] (splitSep (?a @ Separator # [])) = cleanElems r (rev es) ([] # [])"
      by (simp add: splitSep_append cleanElems_append cleanElems_splitSep_render [OF g])
    then show ?thesis using d rt by (simp add: Clean_render)
  qed
qed

subsection \<open>Relative paths between paths in normal form\<close>

lemma takeWhile_nosep:
  "Separator \<notin> set x \<Longrightarrow> takeWhile (\<lambda>c. c \<noteq> Separator) (x @ Separator # zs) = x"
  by (induction x) auto

lemma takeWhile_nosep_all:
  "Separator \<notin> set x \<Longrightarrow> takeWhile (\<lambda>c. c \<noteq> Separator) x = x"
  by (induction x) auto

lemma takeWhile_joinSep:
  "Separator \<notin> set x \<Longrightarrow> takeWhile (\<lambda>c. c \<noteq> Separator) (joinSep (x # xs)) = x"
  by (cases xs) (simp_all add: takeWhile_nosep takeWhile_nosep_all)

lemma drop_joinSep: "drop (Suc (length x)) (joinSep (x # xs)) = joinSep xs"
  by (cases xs) simp_all

lemma joinSep_Cons_nonempty: "x \<noteq> [] \<Longrightarrow> joinSep (x # xs) \<noteq> []"
  by (cases xs) simp_all

lemma relLoop_Cons:
  assumes "x \<noteq> []" "y \<noteq> []" "Separator \<notin> set x" "Separator \<notin> set y"
  shows "relLoop (joinSep (x # xs)) (joinSep (y # ys)) =
           (if y \<noteq> x then (x, joinSep (x # xs), joinSep (y # ys))
            else relLoop (joinSep xs) (joinSep ys))"
  using assms
  by (subst relLoop.simps)
     (simp add: joinSep_Cons_nonempty takeWhile_joinSep drop_joinSep Let_def)

lemma relLoop_Nil: "relLoop [] t = ([], [], t)" "relLoop b [] = ([], b, [])"
  by (simp_all add: relLoop.simps)

lemma relLoop_common:
  assumes "\<forall>x \<in> set es. x \<noteq> [] \<and> Separator \<notin> set x"
  shows "relLoop (joinSep (es @ as)) (joinSep (es @ bs)) = relLoop (joinSep as) (joinSep bs)"
  using assms by (induction es) (simp_all add: relLoop_Cons)

lemma relLoop_diverge:
  assumes "\<forall>x \<in> set as. x \<noteq> [] \<and> Separator \<notin> set x"
    and "\<forall>x \<in> set bs. x \<noteq> [] \<and> Separator \<notin> set x"
    and "diverge as bs"
  shows "relLoop (joinSep as) (joinSep bs) =
           (if as = [] \<or> bs = [] then [] else hd as, joinSep as, joinSep bs)"
proof (cases as)
  case Nil
  then show ?thesis by (simp add: relLoop_Nil)
next
  case a: (Cons a as')
  show ?thesis
  proof (cases bs)
    case Nil
    then show ?thesis by (simp add: relLoop_Nil)
  next
    case (Cons b bs')
    then show ?thesis using a assms by (simp add: relLoop_Cons diverge_def)
  qed
qed

lemma count_sep_joinSep:
  "\<forall>x \<in> set as. Separator \<notin> set x \<Longrightarrow>
   length (filter (\<lambda>c. c = Separator) (joinSep as)) = length as - 1"
proof (induction as rule: joinSep.induct)
  case 1
  then show ?case by simp
next
  case (2 x)
  then show ?case by (auto simp: filter_empty_conv)
next
  case (3 x y ys)
  have "filter (\<lambda>c. c = Separator) x = []" using 3 by (auto simp: filter_empty_conv)
  then show ?case using 3 by simp
qed

lemma ups_joinSep:
  "''..'' @ concat (replicate k (Separator # ''..'')) = joinSep (replicate (Suc k) ''..'')"
proof (induction k)
  case 0
  then show ?case by simp
next
  case (Suc k)
  have "joinSep (replicate (Suc (Suc k)) ''..'') = ''..'' @ Separator # joinSep (replicate (Suc k) ''..'')"
    by simp
  also have "\<dots> = ''..'' @ Separator # ''..'' @ concat (replicate k (Separator # ''..''))"
    using Suc by simp
  finally show ?case by simp
qed

lemma splitSep_ups:
  "splitSep (joinSep (replicate (Suc k) ''..'')) = replicate (Suc k) ''..''"
  by (rule splitSep_joinSep) (auto simp: Separator_def)

text \<open>The elements of the relative path that are \<open>..\<close>.\<close>

lemma Rel_render:
  assumes g: "goodElems r es"
    and na: "\<forall>n \<in> set as. isName n" and nb: "\<forall>n \<in> set bs. isName n"
    and dv: "diverge as bs"
  shows "\<exists>rel. Rel (render r (es @ as)) (render r (es @ bs)) = Inr rel
           \<and> filter (\<lambda>c. c = ''..'') (splitSep rel) = replicate (length as) ''..''"
proof -
  let ?B = "render r (es @ as)" and ?T = "render r (es @ bs)"
  have ga: "goodElems r (es @ as)" using g na by (rule goodElems_append_names)
  have gb: "goodElems r (es @ bs)" using g nb by (rule goodElems_append_names)
  have cB: "Clean ?B = ?B" using ga by (rule Clean_render_good)
  have cT: "Clean ?T = ?T" using gb by (rule Clean_render_good)
  have ea: "\<forall>x \<in> set as. x \<noteq> [] \<and> Separator \<notin> set x" using na by (simp add: isName_def)
  have eb: "\<forall>x \<in> set bs. x \<noteq> [] \<and> Separator \<notin> set x" using nb by (simp add: isName_def)
  have ee: "\<forall>x \<in> set es. x \<noteq> [] \<and> Separator \<notin> set x" using g by (simp add: goodElems_def)
  have nob: "filter (\<lambda>c. c = ''..'') bs = []"
    using nb by (auto simp: filter_empty_conv isName_def)
  show ?thesis
  proof (cases "as = [] \<and> bs = []")
    case True
    then show ?thesis by (simp add: Rel_def Separator_def)
  next
    case False
    have neq: "?T \<noteq> ?B"
    proof
      assume "?T = ?B"
      then have "es @ bs = es @ as" using render_inject [OF gb ga] by simp
      then have "as = bs" by simp
      then show False using False dv by (auto simp: diverge_def)
    qed
    \<comment> \<open>what the loop of Rel is run on, and what it returns\<close>
    define base where "base = (if ?B = ''.'' then [] else ?B)"
    have rt: "isRooted base = isRooted ?T"
    proof (cases "?B = ''.''")
      case True
      then have "\<not> r" using isRooted_render [OF ga] by (auto simp: isRooted_def Separator_def)
      then show ?thesis using True isRooted_render [OF gb] by (simp add: base_def isRooted_def)
    next
      case False
      then show ?thesis using isRooted_render [OF ga] isRooted_render [OF gb] by (simp add: base_def)
    qed
    have hda: "as \<noteq> [] \<Longrightarrow> hd as \<noteq> ''..''"
      using na by (cases as) (auto simp: isName_def)
    have loop: "\<exists>bw trest. relLoop base ?T = (bw, joinSep as, trest)
                \<and> bw \<noteq> ''..''
                \<and> (as = [] \<longrightarrow> trest \<noteq> [])
                \<and> filter (\<lambda>c. c = ''..'') (splitSep trest) = []"
    proof (cases r)
      case True
      have b: "base = Separator # joinSep (es @ as)" using True by (simp add: base_def render_def)
      have t: "?T = Separator # joinSep (es @ bs)" using True by (simp add: render_def)
      have "relLoop base ?T = relLoop (joinSep (es @ as)) (joinSep (es @ bs))"
        unfolding b t by (subst relLoop.simps) simp
      also have "\<dots> = relLoop (joinSep as) (joinSep bs)" using ee by (rule relLoop_common)
      also have "\<dots> = (if as = [] \<or> bs = [] then [] else hd as, joinSep as, joinSep bs)"
        using ea eb dv by (rule relLoop_diverge)
      finally have l: "relLoop base ?T =
          (if as = [] \<or> bs = [] then [] else hd as, joinSep as, joinSep bs)" .
      show ?thesis
      proof (cases "bs = []")
        case True
        then have "as \<noteq> []" using False by simp
        then show ?thesis using l True by simp
      next
        case bne: False
        have "splitSep (joinSep bs) = bs" using bne eb by (simp add: splitSep_joinSep)
        moreover have "joinSep bs \<noteq> []" using bne eb joinSep_eq_Nil [of bs] by simp
        ultimately show ?thesis using l bne nob hda by auto
      qed
    next
      case nr: False
      have b: "base = joinSep (es @ as)"
      proof (cases "es @ as = []")
        case True
        then show ?thesis using nr by (simp add: base_def render_def)
      next
        case False
        then have ne: "joinSep (es @ as) \<noteq> []"
          using ee ea joinSep_eq_Nil [of "es @ as"] by auto
        then have "?B = joinSep (es @ as)" using nr by (simp add: render_def)
        moreover have "?B \<noteq> ''.''"
        proof
          assume "?B = ''.''"
          then have "render r (es @ as) = render r []" using nr by (simp add: render_def)
          then have "es @ as = []" using render_inject [OF ga, of "[]"] by simp
          then show False using False by simp
        qed
        ultimately show ?thesis by (simp add: base_def)
      qed
      show ?thesis
      proof (cases "es @ bs = []")
        case True
        then have t: "?T = ''.''" using nr by (simp add: render_def)
        from True False have ane: "as \<noteq> []" by simp
        then obtain a as' where a: "as = a # as'" by (cases as) auto
        have an: "isName a" using na a by simp
        have b': "base = joinSep (a # as')" using b True a by simp
        have ne: "joinSep (a # as') \<noteq> []" using an by (simp add: joinSep_Cons_nonempty isName_def)
        have tw: "takeWhile (\<lambda>c. c \<noteq> Separator) (joinSep (a # as')) = a"
          using an by (simp add: takeWhile_joinSep isName_def)
        have "relLoop base ?T = (a, joinSep as, ''.'')"
          unfolding b' t using ne tw an a
          by (subst relLoop.simps) (auto simp: isName_def Separator_def Let_def)
        then show ?thesis using a an by (simp add: Separator_def isName_def)
      next
        case tne: False
        then have ne: "joinSep (es @ bs) \<noteq> []"
          using ee eb joinSep_eq_Nil [of "es @ bs"] by auto
        then have t: "?T = joinSep (es @ bs)" using nr by (simp add: render_def)
        have "relLoop base ?T = relLoop (joinSep as) (joinSep bs)"
          unfolding b t using ee by (rule relLoop_common)
        also have "\<dots> = (if as = [] \<or> bs = [] then [] else hd as, joinSep as, joinSep bs)"
          using ea eb dv by (rule relLoop_diverge)
        finally have l: "relLoop base ?T =
            (if as = [] \<or> bs = [] then [] else hd as, joinSep as, joinSep bs)" .
        show ?thesis
        proof (cases "bs = []")
          case True
          then have "as \<noteq> []" using False by simp
          then show ?thesis using l True by (simp add: relLoop.simps)
        next
          case bne: False
          have "splitSep (joinSep bs) = bs" using bne eb by (simp add: splitSep_joinSep)
          moreover have "joinSep bs \<noteq> []" using bne eb joinSep_eq_Nil [of bs] by simp
          ultimately show ?thesis using l bne nob hda by auto
        qed
      qed
    qed
    then obtain bw trest where l: "relLoop base ?T = (bw, joinSep as, trest)"
      and bw: "bw \<noteq> ''..''"
      and tr1: "as = [] \<longrightarrow> trest \<noteq> []"
      and tr2: "filter (\<lambda>c. c = ''..'') (splitSep trest) = []" by blast
    have R: "Rel ?B ?T =
       (if joinSep as \<noteq> []
        then Inr (''..'' @ concat (replicate (length (filter (\<lambda>c. c = Separator) (joinSep as)))
                                   (Separator # ''..''))
                  @ (if trest \<noteq> [] then Separator # trest else []))
        else Inr trest)"
      using neq rt l bw unfolding Rel_def cB cT base_def by (simp add: Let_def)
    show ?thesis
    proof (cases "as = []")
      case True
      then show ?thesis using R tr2 by simp
    next
      case ane: False
      have jne: "joinSep as \<noteq> []" using ane ea joinSep_eq_Nil [of as] by simp
      obtain k where k: "length as = Suc k" using ane by (cases as) auto
      have cnt: "length (filter (\<lambda>c. c = Separator) (joinSep as)) = k"
        using ea k by (simp add: count_sep_joinSep)
      let ?ups = "joinSep (replicate (length as) ''..'')"
      have "Rel ?B ?T = Inr ((''..'' @ concat (replicate k (Separator # ''..'')))
                              @ (if trest \<noteq> [] then Separator # trest else []))"
        using R jne cnt by simp
      then have R': "Rel ?B ?T = Inr (?ups @ (if trest \<noteq> [] then Separator # trest else []))"
        unfolding ups_joinSep k .
      have su: "splitSep ?ups = replicate (length as) ''..''"
        using splitSep_ups [of k] k by simp
      show ?thesis
      proof (cases "trest = []")
        case True
        then show ?thesis using R' su by simp
      next
        case False
        then show ?thesis using R' su tr2 by (simp add: splitSep_append)
      qed
    qed
  qed
qed

subsection \<open>Sending a tree: directory markers\<close>

lemma openDirs_simps [simp]:
  "openDirs [] = 0"
  "openDirs (a # v) =
     (if isStartDirectory a then 1 else 0) - (if a = EndDirectory then 1 else 0) + openDirs v"
  "openDirs (w @ v) = openDirs w + openDirs v"
  by (simp_all add: openDirs_def countStarts_def countEnds_def)

lemma endDirectoriesLoop_filter:
  "endDirectoriesLoop e st cs w = endDirectoriesLoop e st (filter (\<lambda>c. c = ''..'') cs) w"
  by (induction cs arbitrary: st w) (auto split: option.splits prod.splits)

lemma endDirectoriesLoop_trace:
  "endDirectoriesLoop e st (replicate k ''..'') w = (None, st', w') \<Longrightarrow>
   st' = st\<lparr>prevDirSkipped := prevDirSkipped st \<and> k = 0\<rparr>
   \<and> w' = w @ replicate (k - (if prevDirSkipped st then 1 else 0)) EndDirectory"
proof (induction k arbitrary: st w)
  case 0
  then show ?case by simp
next
  case (Suc k)
  show ?case
  proof (cases "prevDirSkipped st")
    case True
    then have "endDirectoriesLoop e (st\<lparr>prevDirSkipped := False\<rparr>) (replicate k ''..'') w
                 = (None, st', w')"
      using Suc.prems by simp
    from Suc.IH [OF this] show ?thesis using True by simp
  next
    case False
    then obtain w1 where p: "perform e EndDirectory w = (None, w1)"
      and l: "endDirectoriesLoop e st (replicate k ''..'') w1 = (None, st', w')"
      using Suc.prems by (auto split: option.splits prod.splits)
    have w1: "w1 = w @ [EndDirectory]" using p by (simp add: perform_def)
    from Suc.IH [OF l] show ?thesis using False w1 by (simp add: replicate_append_same)
  qed
qed

lemma openDirs_replicate_End [simp]: "openDirs (replicate m EndDirectory) = - int m"
  by (induction m) simp_all

lemma endDirectoriesLoop_ups:
  assumes "endDirectoriesLoop e st (replicate k ''..'') w = (None, st', w')"
  shows "st' = st\<lparr>prevDirSkipped := prevDirSkipped st \<and> k = 0\<rparr>
   \<and> openDirs w' = openDirs w - int k + (if prevDirSkipped st \<and> 0 < k then 1 else 0)"
  using endDirectoriesLoop_trace [OF assms] by (cases k) auto

lemma endDirectories_render:
  assumes "goodElems r es" "\<forall>n \<in> set as. isName n" "\<forall>n \<in> set bs. isName n" "diverge as bs"
  shows "endDirectories e st (render r (es @ as)) (render r (es @ bs)) w
           = endDirectoriesLoop e st (replicate (length as) ''..'') w"
proof -
  obtain rel where r: "Rel (render r (es @ as)) (render r (es @ bs)) = Inr rel"
    and f: "filter (\<lambda>c. c = ''..'') (splitSep rel) = replicate (length as) ''..''"
    using Rel_render [OF assms] by blast
  show ?thesis
    unfolding endDirectories_def r using endDirectoriesLoop_filter [of e st "splitSep rel" w] f
    by simp
qed


lemma myWalkFn_file:
  assumes g: "goodElems r es" and n: "isName n" and inv: "walkInv r es st qs"
    and run: "myWalkFn e f (render r (es @ [n])) info False st w = (res, st', w')"
    and ok: "res = None \<or> res = Some SkipDir"
  shows "res = None \<and> walkInv r es st' [] \<and> bal st' [] w' = bal st qs w"
proof -
  have d: "Dir (render r (es @ [n])) = render r es" using g n by (rule Dir_render)
  have pd: "prevDir st = render r (es @ qs)" and nq: "\<forall>n \<in> set qs. isName n"
    and sk: "prevDirSkipped st \<longrightarrow> qs \<noteq> []"
    using inv by (simp_all add: walkInv_def)
  have ed: "endDirectories e st (prevDir st) (render r es) w
              = endDirectoriesLoop e st (replicate (length qs) ''..'') w"
    using endDirectories_render [OF g nq, of "[]" e st w] pd by (simp add: diverge_def)
  obtain x st1 w1 where l: "endDirectoriesLoop e st (replicate (length qs) ''..'') w = (x, st1, w1)"
    by (cases "endDirectoriesLoop e st (replicate (length qs) ''..'') w")
  show ?thesis
  proof (cases x)
    case (Some err)
    then show ?thesis using run ok l ed d by (auto simp: myWalkFn_def)
  next
    case None
    have s1: "st1 = st\<lparr>prevDirSkipped := prevDirSkipped st \<and> length qs = 0\<rparr>"
      and o1: "openDirs w1 = openDirs w - int (length qs)
                 + (if prevDirSkipped st \<and> 0 < length qs then 1 else 0)"
      using endDirectoriesLoop_ups [of e st "length qs" w st1 w1] l None by auto
    have nsk: "\<not> prevDirSkipped st1" using s1 sk by auto
    have o1': "openDirs w1 = bal st qs w" using o1 sk by (auto simp: bal_def)
    show ?thesis using run ok l ed d None nsk o1'
      by (auto simp: myWalkFn_def Let_def perform_def walkInv_def bal_def
               split: option.splits prod.splits if_splits)
  qed
qed

lemma myWalkFn_dir:
  assumes g: "goodElems r es" and n: "isName n" and inv: "walkInv r es st qs"
    and dv: "diverge qs [n]"
    and run: "myWalkFn e f (render r (es @ [n])) info True st w = (res, st', w')"
    and ok: "res = None \<or> res = Some SkipDir"
  shows "walkInv r es st' [n] \<and> bal st' [n] w' = bal st qs w
         \<and> prevDirSkipped st' = (res = Some SkipDir)
         \<and> (res = None \<longrightarrow> walkInv r (es @ [n]) st' [] \<and> bal st' [] w' = bal st qs w + 1)"
proof -
  have pd: "prevDir st = render r (es @ qs)" and nq: "\<forall>n \<in> set qs. isName n"
    and sk: "prevDirSkipped st \<longrightarrow> qs \<noteq> []"
    using inv by (simp_all add: walkInv_def)
  have ed: "endDirectories e st (prevDir st) (render r (es @ [n])) w
              = endDirectoriesLoop e st (replicate (length qs) ''..'') w"
    using endDirectories_render [OF g nq _ dv, of e st w] pd n by simp
  obtain x st1 w1 where l: "endDirectoriesLoop e st (replicate (length qs) ''..'') w = (x, st1, w1)"
    by (cases "endDirectoriesLoop e st (replicate (length qs) ''..'') w")
  show ?thesis
  proof (cases x)
    case (Some err)
    then show ?thesis using run ok l ed by (auto simp: myWalkFn_def)
  next
    case None
    have s1: "st1 = st\<lparr>prevDirSkipped := prevDirSkipped st \<and> length qs = 0\<rparr>"
      and o1: "openDirs w1 = openDirs w - int (length qs)
                 + (if prevDirSkipped st \<and> 0 < length qs then 1 else 0)"
      using endDirectoriesLoop_ups [of e st "length qs" w st1 w1] l None by auto
    have nsk: "\<not> prevDirSkipped st1" using s1 sk by auto
    have o1': "openDirs w1 = bal st qs w" using o1 sk by (auto simp: bal_def)
    show ?thesis using run ok l ed None nsk o1' n
      by (auto simp: myWalkFn_def Let_def perform_def walkInv_def bal_def
               split: option.splits prod.splits if_splits)
  qed
qed


lemma myWalkFn_file_no_skip:
  "myWalkFn e f p info False st w = (res, st', w') \<Longrightarrow> res \<noteq> Some SkipDir"
  by (auto simp: myWalkFn_def Let_def split: option.splits prod.splits if_splits)

lemma walk_skip_is_dir:
  "walk e f p node st w = (Some SkipDir, st', w') \<Longrightarrow> nodeIsDir node"
  and walkEntries_no_skip:
  "walkEntries e f p ns st w = (Some err, st', w') \<Longrightarrow> err \<noteq> SkipDir"
proof (induction e f p node st w and e f p ns st w
       arbitrary: st' w' and err st' w' rule: walk_walkEntries.induct)
  case (1 e acceptFn p info st w)
  then show ?case using myWalkFn_file_no_skip by fastforce
next
  case (6 e acceptFn p n ns st w)
  obtain x st1 w1 where wk: "walk e acceptFn (Join [p, nodeName n]) n st w = (x, st1, w1)"
    by (cases "walk e acceptFn (Join [p, nodeName n]) n st w")
  show ?case
  proof (cases x)
    case None
    then have "walkEntries e acceptFn p ns st1 w1 = (Some err, st', w')"
      using "6.prems" wk by simp
    from "6.IH"(2) [OF wk [symmetric] None refl this] show ?thesis .
  next
    case (Some err1)
    show ?thesis
    proof (cases "\<not> nodeIsDir n \<or> err1 \<noteq> SkipDir")
      case True
      then have eq: "err = err1" "st' = st1" "w' = w1" using "6.prems" wk Some by simp_all
      show ?thesis
      proof
        assume "err = SkipDir"
        then have "walk e acceptFn (Join [p, nodeName n]) n st w = (Some SkipDir, st1, w1)"
          using wk Some eq by simp
        from "6.IH"(1) [OF this] show False using True \<open>err = SkipDir\<close> eq by simp
      qed
    next
      case False
      then have "walkEntries e acceptFn p ns st1 w1 = (Some err, st', w')"
        using "6.prems" wk Some by simp
      from "6.IH"(3) [OF wk [symmetric] Some refl False this] show ?thesis .
    qed
  qed
qed auto

lemma wfNode_name: "wfNode n \<Longrightarrow> isName (nodeName n)"
  by (cases n) simp_all

lemma walk_balanced:
  "goodElems r es \<Longrightarrow> wfNode node \<Longrightarrow> p = render r (es @ [nodeName node])
   \<Longrightarrow> walkInv r es st qs \<Longrightarrow> diverge qs [nodeName node]
   \<Longrightarrow> walk e f p node st w = (res, st', w') \<Longrightarrow> res = None \<or> res = Some SkipDir
   \<Longrightarrow> (\<exists>qs'. walkInv r es st' qs' \<and> (qs' = [] \<or> hd qs' = nodeName node)
              \<and> bal st' qs' w' = bal st qs w)
       \<and> (res = Some SkipDir \<longrightarrow> nodeIsDir node)"
  and walkEntries_balanced:
  "goodElems r es \<Longrightarrow> wfEntries ns \<Longrightarrow> p = render r es
   \<Longrightarrow> walkInv r es st qs \<Longrightarrow> qs = [] \<or> hd qs \<notin> set (map nodeName ns)
   \<Longrightarrow> walkEntries e f p ns st w = (None, st', w')
   \<Longrightarrow> \<exists>qs'. walkInv r es st' qs' \<and> bal st' qs' w' = bal st qs w"
proof (induction e f p node st w and e f p ns st w
       arbitrary: r es qs res st' w' and r es qs st' w' rule: walk_walkEntries.induct)
  case (1 e acceptFn p info st w)
  have n: "isName (osName info)" using "1.prems" by simp
  have run: "myWalkFn e acceptFn (render r (es @ [osName info])) info False st w = (res, st', w')"
    using "1.prems" by simp
  from myWalkFn_file [OF "1.prems"(1) n "1.prems"(4) run "1.prems"(7)]
  show ?case by auto
next
  case (2 e acceptFn p n err st w)
  then show ?case by auto
next
  case (3 e acceptFn p info err st w)
  then show ?case by auto
next
  case (4 e acceptFn p info entries st w)
  have n: "isName (osName info)" and wfe: "wfEntries entries" using "4.prems" by simp_all
  have p: "p = render r (es @ [osName info])" using "4.prems" by simp
  have dv: "diverge qs [osName info]" using "4.prems" by simp
  obtain x st1 w1 where m: "myWalkFn e acceptFn p info True st w = (x, st1, w1)"
    by (cases "myWalkFn e acceptFn p info True st w")
  show ?case
  proof (cases x)
    case (Some err1)
    then have eq: "res = Some err1" "st' = st1" "w' = w1" using "4.prems"(6) m by simp_all
    then have ok1: "x = None \<or> x = Some SkipDir" using "4.prems"(7) Some by simp
    from myWalkFn_dir [OF "4.prems"(1) n "4.prems"(4) dv m [unfolded p] ok1]
    have "walkInv r es st1 [osName info]" "bal st1 [osName info] w1 = bal st qs w" by simp_all
    then show ?thesis using eq by auto
  next
    case None
    then have we: "walkEntries e acceptFn p entries st1 w1 = (res, st', w')"
      using "4.prems"(6) m by simp
    from myWalkFn_dir [OF "4.prems"(1) n "4.prems"(4) dv m [unfolded p]] None
    have i1: "walkInv r (es @ [osName info]) st1 []"
      and b1: "bal st1 [] w1 = bal st qs w + 1" by simp_all
    have g1: "goodElems r (es @ [osName info])"
      using "4.prems"(1) n by (rule goodElems_snoc_name)
    show ?thesis
    proof (cases res)
      case (Some err)
      then have "err \<noteq> SkipDir" using walkEntries_no_skip we by blast
      then show ?thesis using Some "4.prems"(7) by simp
    next
      case rn: None
      have "\<exists>qs'. walkInv r (es @ [osName info]) st' qs' \<and> bal st' qs' w' = bal st1 [] w1"
        using "4.IH" [OF m [symmetric] None refl g1 wfe p i1 _ we [unfolded rn]] by simp
      then obtain ms where i2: "walkInv r (es @ [osName info]) st' ms"
        and b2: "bal st' ms w' = bal st1 [] w1" by blast
      have "walkInv r es st' (osName info # ms)"
        using i2 n by (auto simp: walkInv_def)
      moreover have "bal st' (osName info # ms) w' = bal st qs w"
        using b2 b1 by (simp add: bal_def)
      ultimately show ?thesis using rn by auto
    qed
  qed
next
  case (5 e acceptFn p st w)
  then show ?case by auto
next
  case (6 e acceptFn p n ns st w)
  have wn: "wfNode n" and nn: "nodeName n \<notin> set (map nodeName ns)" and wns: "wfEntries ns"
    using "6.prems"(2) by simp_all
  have nm: "isName (nodeName n)" using wn by (rule wfNode_name)
  have jp: "Join [p, nodeName n] = render r (es @ [nodeName n])"
    using "6.prems"(1,3) nm by (simp add: Join_render)
  have dv: "diverge qs [nodeName n]" using "6.prems"(5) by (auto simp: diverge_def)
  obtain x st1 w1 where wk: "walk e acceptFn (Join [p, nodeName n]) n st w = (x, st1, w1)"
    by (cases "walk e acceptFn (Join [p, nodeName n]) n st w")
  have cont: "(x = None \<or> x = Some SkipDir)
              \<and> walkEntries e acceptFn p ns st1 w1 = (None, st', w')"
    using "6.prems"(6) wk by (auto split: option.splits if_splits)
  from "6.IH"(1) [OF "6.prems"(1) wn jp "6.prems"(4) dv wk] cont
  obtain qs1 where i1: "walkInv r es st1 qs1" and h1: "qs1 = [] \<or> hd qs1 = nodeName n"
    and b1: "bal st1 qs1 w1 = bal st qs w"
    and sd: "x = Some SkipDir \<longrightarrow> nodeIsDir n" by blast
  have c1: "qs1 = [] \<or> hd qs1 \<notin> set (map nodeName ns)" using h1 nn by auto
  have "\<exists>qs'. walkInv r es st' qs' \<and> bal st' qs' w' = bal st1 qs1 w1"
  proof (cases x)
    case None
    from "6.IH"(2) [OF wk [symmetric] None refl "6.prems"(1) wns "6.prems"(3) i1 c1] cont
    show ?thesis by simp
  next
    case (Some err1)
    then have e1: "err1 = SkipDir" using cont by simp
    then have nd: "\<not> (\<not> nodeIsDir n \<or> err1 \<noteq> SkipDir)" using sd Some by simp
    from "6.IH"(3) [OF wk [symmetric] Some refl nd "6.prems"(1) wns "6.prems"(3) i1 c1] cont
    show ?thesis by simp
  qed
  then show ?case using b1 by auto
qed




lemma countEnds_simps [simp]:
  "countEnds (w @ v) = countEnds w + countEnds v" "countEnds (replicate m EndDirectory) = m"
  "countStarts (w @ v) = countStarts w + countStarts v" "countStarts (replicate m EndDirectory) = 0"
  by (induction m) (simp_all add: countEnds_def countStarts_def)





end
